theory Spec2Isabelle
  imports Main "HOL-Library.Log_Nat"
begin

section \<open>Python values used by profile.py\<close>

text \<open>
  The script works on Python integers (unbounded, modelled as \<open>int\<close>) and, in two places,
  on Python floats: \<^verbatim>\<open>get_max_size\<close> divides with \<^verbatim>\<open>/\<close> (true division, which
  yields a float) and the sampling loop computes
  \<^verbatim>\<open>math.ceil(max_possible_size/bin_size)\<close>.  A finite float is a dyadic rational; it
  is represented here as a pair \<open>(m, x)\<close> of integers standing for \<open>m * 2^x\<close>.  Every
  float operation is the exact operation followed by rounding to the nearest double
  (53 significant bits, ties to even, gradual underflow below \<open>2^-1022\<close>), which is what
  CPython does for \<^verbatim>\<open>int / int\<close>, \<^verbatim>\<open>float(int)\<close>, \<^verbatim>\<open>-\<close> and \<^verbatim>\<open>/\<close>.
  Exceptions raised by Python are values of type \<open>error\<close>.
\<close>

datatype error = ValueError | IndexError | OverflowError | ZeroDivisionError | AssertionError

type_synonym double = "int \<times> int"

text \<open>\<open>scale a b x\<close> is the fraction \<open>(a / b) / 2^x\<close>, kept as numerator and denominator.\<close>

definition scale :: "int \<Rightarrow> int \<Rightarrow> int \<Rightarrow> int \<times> int" where
  "scale a b x = (if 0 \<le> x then (a, b * 2 ^ nat x) else (a * 2 ^ nat (- x), b))"

text \<open>The integer nearest to \<open>a / b\<close> for \<open>0 \<le> a\<close>, \<open>0 < b\<close>, ties to the even one.\<close>

definition round_half_even :: "int \<Rightarrow> int \<Rightarrow> int" where
  "round_half_even a b =
     (let f = a div b; r = a mod b
      in if 2 * r < b then f else if b < 2 * r then f + 1 else if even f then f else f + 1)"

text \<open>The binary exponent \<open>\<lfloor>log\<^sub>2 (a / b)\<rfloor>\<close> of a positive fraction.\<close>

definition binade :: "int \<Rightarrow> int \<Rightarrow> int" where
  "binade a b =
     (let k = bitlen a - bitlen b
      in if snd (scale a b k) \<le> fst (scale a b k) then k else k - 1)"

text \<open>
  \<open>fl p q\<close> is the double nearest to \<open>p / q\<close> (for \<open>q \<noteq> 0\<close>); a result of magnitude
  \<open>2^1024\<close> or more is Python's OverflowError.
\<close>

definition fl :: "int \<Rightarrow> int \<Rightarrow> error + double" where
  "fl p q =
     (if p = 0 then Inr (0, 0)
      else
        let a = \<bar>p\<bar>; b = \<bar>q\<bar>;
            x = max (binade a b) (- 1022) - 52;
            m = round_half_even (fst (scale a b x)) (snd (scale a b x))
        in if 0 \<le> x \<and> 2 ^ 1024 \<le> m * 2 ^ nat x then Inl OverflowError
           else Inr (sgn p * sgn q * m, x))"

text \<open>A double as a fraction with a positive denominator.\<close>

definition frac :: "double \<Rightarrow> int \<times> int" where
  "frac d = (if 0 \<le> snd d then (fst d * 2 ^ nat (snd d), 1) else (fst d, 2 ^ nat (- snd d)))"

text \<open>\<^verbatim>\<open>a / b\<close> on two Python ints.\<close>

definition int_truediv :: "int \<Rightarrow> int \<Rightarrow> error + double" where
  "int_truediv p q = (if q = 0 then Inl ZeroDivisionError else fl p q)"

text \<open>\<^verbatim>\<open>float(n)\<close>, the implicit conversion of an int operand.\<close>

definition float_of_int :: "int \<Rightarrow> error + double" where
  "float_of_int n = fl n 1"

text \<open>
  \<^verbatim>\<open>m ** e\<close> for ints with \<open>e < 0\<close>: CPython converts both operands to float and calls
  the C library's \<^verbatim>\<open>pow\<close>; a zero base raises ZeroDivisionError, an underflowing
  result is \<open>0.0\<close>.  The C function is taken to round correctly; the exponent is used
  exactly (it is only called here with bases \<open>0\<close> and \<open>\<ge> 2\<close>, where rounding an
  exponent beyond \<open>2^53\<close> leaves the underflowed result \<open>0.0\<close> unchanged).
\<close>

definition int_pow_neg :: "int \<Rightarrow> int \<Rightarrow> error + double" where
  "int_pow_neg m e =
     (case float_of_int m of
        Inl er \<Rightarrow> Inl er
      | Inr b \<Rightarrow>
          (case float_of_int e of
             Inl er \<Rightarrow> Inl er
           | Inr _ \<Rightarrow>
               if fst b = 0 then Inl ZeroDivisionError
               else fl (snd (frac b) ^ nat (- e)) (fst (frac b) ^ nat (- e))))"

text \<open>\<^verbatim>\<open>n - x\<close> for an int \<open>n\<close> and a float \<open>x\<close>.\<close>

definition int_sub_float :: "int \<Rightarrow> double \<Rightarrow> error + double" where
  "int_sub_float n x =
     (case float_of_int n of
        Inl er \<Rightarrow> Inl er
      | Inr a \<Rightarrow>
          fl (fst (frac a) * snd (frac x) - fst (frac x) * snd (frac a))
             (snd (frac a) * snd (frac x)))"

text \<open>\<^verbatim>\<open>x / n\<close> for a float \<open>x\<close> and an int \<open>n\<close>.\<close>

definition float_div_int :: "double \<Rightarrow> int \<Rightarrow> error + double" where
  "float_div_int x n =
     (case float_of_int n of
        Inl er \<Rightarrow> Inl er
      | Inr b \<Rightarrow>
          if fst b = 0 then Inl ZeroDivisionError
          else fl (fst (frac x) * snd (frac b)) (snd (frac x) * fst (frac b)))"

text \<open>\<^verbatim>\<open>int(x)\<close> truncates towards zero; \<^verbatim>\<open>math.ceil(x)\<close> rounds up.\<close>

definition trunc_int :: "double \<Rightarrow> int" where
  "trunc_int d = sgn (fst (frac d)) * (\<bar>fst (frac d)\<bar> div snd (frac d))"

definition math_ceil :: "double \<Rightarrow> int" where
  "math_ceil d = - ((- fst (frac d)) div snd (frac d))"

text \<open>\<^verbatim>\<open>x < y\<close> on floats.\<close>

definition float_less :: "double \<Rightarrow> double \<Rightarrow> bool" where
  "float_less x y \<longleftrightarrow> fst (frac x) * snd (frac y) < fst (frac y) * snd (frac x)"

section \<open>Size arithmetic\<close>

text \<open>
  \<^verbatim>\<open>
  def get_max_size(m, d):
    if (m==1):
      return d+1
    else:
      return int((1-m**(d+1))/(1-m))
  \<close>
  For \<open>d + 1 \<ge> 0\<close> the power is an exact integer and \<^verbatim>\<open>/\<close> is the true division of two
  ints; for \<open>d + 1 < 0\<close> the power is already a float.  The arity \<open>m\<close> is the length of
  an argument list, hence a natural number.
\<close>

definition get_max_size :: "nat \<Rightarrow> int \<Rightarrow> error + int" where
  "get_max_size m d =
     (if m = 1 then Inr (d + 1)
      else if 0 \<le> d + 1 then
        (case int_truediv (1 - int m ^ nat (d + 1)) (1 - int m) of
           Inl er \<Rightarrow> Inl er
         | Inr x \<Rightarrow> Inr (trunc_int x))
      else
        (case int_pow_neg (int m) (d + 1) of
           Inl er \<Rightarrow> Inl er
         | Inr pw \<Rightarrow>
             (case int_sub_float 1 pw of
                Inl er \<Rightarrow> Inl er
              | Inr num \<Rightarrow>
                  (case float_div_int num (1 - int m) of
                     Inl er \<Rightarrow> Inl er
                   | Inr x \<Rightarrow> Inr (trunc_int x)))))"

text \<open>The number of nodes of the complete \<open>m\<close>-ary tree of depth \<open>d\<close>: one node at the
  root, \<open>m\<close> times as many on each further level.\<close>

fun complete_tree_size :: "nat \<Rightarrow> nat \<Rightarrow> int" where
  "complete_tree_size m 0 = 1"
| "complete_tree_size m (Suc d) = 1 + int m * complete_tree_size m d"

section \<open>The primitive set and the random source\<close>

text \<open>
  A DEAP primitive set, as far as \<^verbatim>\<open>generate_program_\<close> reads it: the terminals and the
  primitives registered for the return type (the script uses a single type, so
  \<^verbatim>\<open>primitive_set.terminals[ret_type]\<close> and \<^verbatim>\<open>primitive_set.primitives[ret_type]\<close> are
  one list each), the attribute \<^verbatim>\<open>terminalRatio\<close>, and the list
  \<^verbatim>\<open>ephemeral_constants\<close> captured by the lambda that \<^verbatim>\<open>generate_primitive_set\<close>
  registers.  An entry of the terminal list is either a terminal object or the
  ephemeral-constant class, which \<^verbatim>\<open>generate_program_\<close> instantiates
  (\<^verbatim>\<open>if isclass(terminal): terminal = terminal()\<close>).
\<close>

datatype primitive = Primitive (pname: string) (arity: nat)

datatype terminal = Terminal string | EphemeralClass

datatype node = PrimitiveNode primitive | TerminalNode string | EphemeralNode double

record primitive_set =
  terminals :: "terminal list"
  primitives :: "primitive list"
  terminalRatio :: double
  ephemeral_constants :: "double list"

text \<open>
  The module-level generator \<^verbatim>\<open>random\<close>: an endless sequence of raw draws (integers,
  reduced to the requested range by each call) and the number of draws consumed so far.  Each call of \<^verbatim>\<open>random.randint\<close>, \<^verbatim>\<open>random.choice\<close> or
  \<^verbatim>\<open>random.random\<close> consumes one draw.  The generator is module state, so it outlives an
  exception: a call that touches it returns, next to its value or its exception, the
  generator as the call left it.
\<close>

record rng =
  source :: "nat \<Rightarrow> int"
  cursor :: nat

definition draw :: "rng \<Rightarrow> int \<times> rng" where
  "draw g = (source g (cursor g), g\<lparr>cursor := Suc (cursor g)\<rparr>)"

type_synonym 'a outcome = "(error \<times> rng) + ('a \<times> rng)"

definition randint :: "int \<Rightarrow> int \<Rightarrow> rng \<Rightarrow> int outcome" where
  "randint a b g =
     (if b < a then Inl (ValueError, g)
      else Inr (a + fst (draw g) mod (b - a + 1), snd (draw g)))"

definition choice :: "'a list \<Rightarrow> rng \<Rightarrow> 'a outcome" where
  "choice xs g =
     (if xs = [] then Inl (IndexError, g)
      else Inr (xs ! nat (fst (draw g) mod int (length xs)), snd (draw g)))"

text \<open>\<^verbatim>\<open>random.random()\<close> returns a multiple of \<open>2^-53\<close> in \<open>[0, 1)\<close>.\<close>

definition random :: "rng \<Rightarrow> double \<times> rng" where
  "random g = ((fst (draw g) mod 2 ^ 53, - 53), snd (draw g))"

section \<open>The program builder\<close>

text \<open>
  The arguments of \<^verbatim>\<open>generate_program_\<close> that stay fixed during the loop, together with
  the drawn \<^verbatim>\<open>desired_value\<close>.
\<close>

record config =
  pset :: primitive_set
  min_depth :: int
  max_depth :: int
  min_size :: int
  max_size :: int
  desired_trait :: string
  desired_value :: int

text \<open>
  The loop state.  The Python stack is a list used from its end; here the head of the
  list is the top of the stack, so \<^verbatim>\<open>for (d,*_) in stack\<close> runs over \<open>rev\<close> of it.
\<close>

type_synonym obligation = "int \<times> int"

record state =
  program :: "node list"
  stack :: "obligation list"
  gen :: rng

datatype step = Continue state | Return "node list option" rng

definition max_list :: "nat list \<Rightarrow> nat" where
  "max_list xs = foldr max xs 0"

text \<open>\<^verbatim>\<open>sum([get_max_size(max_arity, max_depth-d)-1 for (d,*_) in stack])\<close>\<close>

fun budget :: "nat \<Rightarrow> int \<Rightarrow> obligation list \<Rightarrow> error + int" where
  "budget m maxd [] = Inr 0"
| "budget m maxd (ob # obs) =
     (case get_max_size m (maxd - fst ob) of
        Inl er \<Rightarrow> Inl er
      | Inr v \<Rightarrow>
          (case budget m maxd obs of
             Inl er \<Rightarrow> Inl er
           | Inr t \<Rightarrow> Inr (v - 1 + t)))"

definition valid_functions :: "config \<Rightarrow> int \<Rightarrow> primitive list" where
  "valid_functions c sz = filter (\<lambda>f. sz + int (arity f) \<le> max_size c) (primitives (pset c))"

text \<open>The local function \<^verbatim>\<open>terminal_condition\<close> of \<^verbatim>\<open>generate_grow\<close>.  Python's
  \<^verbatim>\<open>and\<close>/\<^verbatim>\<open>or\<close> short-circuit, so \<^verbatim>\<open>random.random()\<close> is only called when every
  earlier operand leaves the result open.\<close>

definition terminal_condition ::
  "config \<Rightarrow> obligation list \<Rightarrow> int \<Rightarrow> int \<Rightarrow> rng \<Rightarrow> bool outcome" where
  "terminal_condition c stk depth sz g =
     (let valid_terminals = terminals (pset c);
          vf = valid_functions c sz;
          max_arity = (if vf = [] then 1 else max_list (map arity vf))
      in case (if stk = [] then Inr sz
               else (case budget max_arity (max_depth c) (rev stk) of
                       Inl er \<Rightarrow> Inl er
                     | Inr b \<Rightarrow> Inr (sz + b))) of
           Inl er \<Rightarrow> Inl (er, g)
         | Inr max_possible_size \<Rightarrow>
             if valid_terminals = [] then Inr (False, g)
             else if vf = [] \<or> depth = max_depth c \<or> sz = max_size c
                     \<or> (desired_trait c = ''depth'' \<and> depth = desired_value c)
                     \<or> (desired_trait c = ''size'' \<and> desired_value c \<le> sz)
                  then Inr (True, g)
             else if min_depth c \<le> depth \<and> min_size c \<le> sz
                     \<and> (desired_trait c = ''depth''
                          \<or> (desired_trait c = ''size'' \<and> desired_value c \<le> max_possible_size))
                  then Inr (float_less (fst (random g)) (terminalRatio (pset c)), snd (random g))
             else Inr (False, g))"

text \<open>The inner loop \<^verbatim>\<open>for f in valid_functions\<close> that builds \<^verbatim>\<open>temp_functions\<close>.\<close>

fun feasible ::
  "config \<Rightarrow> nat \<Rightarrow> obligation list \<Rightarrow> int \<Rightarrow> int \<Rightarrow> primitive list \<Rightarrow> error + primitive list" where
  "feasible c m stk depth sz [] = Inr []"
| "feasible c m stk depth sz (f # fs) =
     (case get_max_size m (max_depth c - (depth + 1)) of
        Inl er \<Rightarrow> Inl er
      | Inr v \<Rightarrow>
          (case (if stk = [] then Inr (sz + int (arity f) * v)
                 else (case budget m (max_depth c) (rev stk) of
                         Inl er \<Rightarrow> Inl er
                       | Inr b \<Rightarrow> Inr (sz + int (arity f) * v + b))) of
             Inl er \<Rightarrow> Inl er
           | Inr max_possible_size \<Rightarrow>
               (case feasible c m stk depth sz fs of
                  Inl er \<Rightarrow> Inl er
                | Inr rest \<Rightarrow>
                    Inr (if desired_value c \<le> max_possible_size then f # rest else rest))))"

text \<open>The list \<^verbatim>\<open>valid_functions\<close> from which the function branch chooses.\<close>

definition candidate_functions ::
  "config \<Rightarrow> obligation list \<Rightarrow> int \<Rightarrow> int \<Rightarrow> error + primitive list" where
  "candidate_functions c stk depth sz =
     (let vf = valid_functions c sz
      in if vf \<noteq> [] \<and> desired_trait c = ''size''
         then feasible c (max_list (map arity vf)) stk depth sz vf
         else Inr vf)"

text \<open>Choosing and, for the ephemeral-constant class, instantiating a terminal: the
  class's constructor runs the registered lambda
  \<^verbatim>\<open>ephemeral_constants[random.randint(0, num_constants-1)]\<close>.\<close>

definition resolve_terminal :: "primitive_set \<Rightarrow> rng \<Rightarrow> node outcome" where
  "resolve_terminal ps g =
     (case choice (terminals ps) g of
        Inl er \<Rightarrow> Inl er
      | Inr (t, g1) \<Rightarrow>
          (case t of
             Terminal v \<Rightarrow> Inr (TerminalNode v, g1)
           | EphemeralClass \<Rightarrow>
               (case randint 0 (int (length (ephemeral_constants ps)) - 1) g1 of
                  Inl er \<Rightarrow> Inl er
                | Inr (i, g2) \<Rightarrow> Inr (EphemeralNode (ephemeral_constants ps ! nat i), g2))))"

text \<open>After a terminal, the next obligation takes over the current size.\<close>

definition carry_forward :: "int \<Rightarrow> obligation list \<Rightarrow> obligation list" where
  "carry_forward sz rest = (case rest of [] \<Rightarrow> [] | ob # rest' \<Rightarrow> (fst ob, sz) # rest')"

type_synonym condition =
  "config \<Rightarrow> obligation list \<Rightarrow> int \<Rightarrow> int \<Rightarrow> rng \<Rightarrow> bool outcome"

text \<open>One iteration of the \<^verbatim>\<open>while\<close> loop, after \<^verbatim>\<open>depth, size = stack.pop()\<close>;
  \<open>rest\<close> is the stack after the pop.\<close>

definition loop_body ::
  "condition \<Rightarrow> config \<Rightarrow> node list \<Rightarrow> int \<Rightarrow> int \<Rightarrow> obligation list \<Rightarrow> rng
     \<Rightarrow> (error \<times> rng) + step" where
  "loop_body tc c prog depth sz rest g =
     (case tc c rest depth sz g of
        Inl er \<Rightarrow> Inl er
      | Inr (is_terminal, g1) \<Rightarrow>
          if is_terminal then
            (case resolve_terminal (pset c) g1 of
               Inl er \<Rightarrow> Inl er
             | Inr (nd, g2) \<Rightarrow>
                 Inr (Continue \<lparr>program = prog @ [nd], stack = carry_forward sz rest, gen = g2\<rparr>))
          else
            (case candidate_functions c rest depth sz of
               Inl er \<Rightarrow> Inl (er, g1)
             | Inr fs \<Rightarrow>
                 if fs = [] then Inr (Return None g1)
                 else
                   (case choice fs g1 of
                      Inl er \<Rightarrow> Inl er
                    | Inr (f, g2) \<Rightarrow>
                        Inr (Continue
                          \<lparr>program = prog @ [PrimitiveNode f],
                           stack = replicate (arity f) (depth + 1, sz + int (arity f)) @ rest,
                           gen = g2\<rparr>))))"

text \<open>The loop variant: an obligation of size \<open>s\<close> weighs \<open>(A + 1) ^ (max_size - s)\<close>,
  where \<open>A\<close> is the largest arity of the primitive set.\<close>

definition weight :: "config \<Rightarrow> obligation \<Rightarrow> nat" where
  "weight c ob = (max_list (map arity (primitives (pset c))) + 1) ^ nat (max_size c - snd ob)"

definition potential :: "config \<Rightarrow> obligation list \<Rightarrow> nat" where
  "potential c stk = sum_list (map (weight c) stk)"

text \<open>Each iteration lowers the variant; this is what makes the loop a total function.\<close>

lemma max_list_ge: "x \<in> set xs \<Longrightarrow> x \<le> max_list xs"
  by (induction xs) (auto simp: max_list_def)

lemma choice_mem: "choice xs g = Inr (x, g') \<Longrightarrow> x \<in> set xs"
proof -
  assume ch: "choice xs g = Inr (x, g')"
  then have ne: "xs \<noteq> []" and x: "x = xs ! nat (fst (draw g) mod int (length xs))"
    by (auto simp: choice_def split: if_splits)
  from ne have "0 < int (length xs)" by simp
  then have "nat (fst (draw g) mod int (length xs)) < length xs"
    using pos_mod_bound[of "int (length xs)" "fst (draw g)"] pos_mod_sign[of "int (length xs)" "fst (draw g)"]
    by linarith
  with x show ?thesis by simp
qed

lemma feasible_subset: "feasible c m stk depth sz fs = Inr r \<Longrightarrow> set r \<subseteq> set fs"
  by (induction fs arbitrary: r) (auto split: sum.splits if_splits)

lemma candidate_functions_valid:
  "candidate_functions c stk depth sz = Inr fs \<Longrightarrow> set fs \<subseteq> set (valid_functions c sz)"
  by (auto simp: candidate_functions_def Let_def split: if_splits dest: feasible_subset)

lemma weight_pos: "0 < weight c ob"
  by (simp add: weight_def)

lemma potential_carry_forward: "potential c (carry_forward sz rest) < weight c (d, sz) + potential c rest"
proof (cases rest)
  case Nil
  then show ?thesis by (simp add: carry_forward_def potential_def weight_pos)
next
  case (Cons ob rest')
  have "weight c (fst ob, sz) = weight c (d, sz)" by (simp add: weight_def)
  moreover have "0 < weight c ob" by (rule weight_pos)
  ultimately show ?thesis using Cons by (simp add: carry_forward_def potential_def)
qed

lemma arity_less_power: "a \<le> A \<Longrightarrow> a < (A + 1) ^ a" for a A :: nat
proof -
  assume "a \<le> A"
  have "a < 2 ^ a" by (rule less_exp) 
  also have "(2::nat) ^ a \<le> (A + 1) ^ a"
  proof (cases "a = 0")
    case True then show ?thesis by simp
  next
    case False
    with \<open>a \<le> A\<close> have "2 \<le> A + 1" by simp
    then show ?thesis by (rule power_mono) simp
  qed
  finally show ?thesis .
qed

lemma weight_function:
  assumes "f \<in> set (valid_functions c sz)"
  shows "arity f * weight c (d', sz + int (arity f)) < weight c (d, sz)"
proof -
  let ?A = "max_list (map arity (primitives (pset c)))"
  let ?a = "arity f"
  from assms have le: "sz + int ?a \<le> max_size c" and mem: "f \<in> set (primitives (pset c))"
    by (auto simp: valid_functions_def)
  from mem have aA: "?a \<le> ?A" by (auto intro: max_list_ge)
  have split: "nat (max_size c - sz) = nat (max_size c - (sz + int ?a)) + ?a"
    using le by simp
  have "?a * (?A + 1) ^ nat (max_size c - (sz + int ?a)) < (?A + 1) ^ ?a * (?A + 1) ^ nat (max_size c - (sz + int ?a))"
    using arity_less_power[OF aA] by simp
  also have "\<dots> = (?A + 1) ^ nat (max_size c - sz)"
    by (subst split) (simp add: power_add)
  finally show ?thesis by (simp add: weight_def)
qed

lemma potential_replicate: "potential c (replicate n ob @ rest) = n * weight c ob + potential c rest"
  by (induction n) (auto simp: potential_def)

lemma loop_body_decreases:
  assumes "loop_body tc c prog depth sz rest g = Inr (Continue st')"
  shows "potential c (stack st') < potential c ((depth, sz) # rest)"
proof -
  have pot: "potential c ((depth, sz) # rest) = weight c (depth, sz) + potential c rest"
    by (simp add: potential_def)
  from assms show ?thesis
  proof (cases "tc c rest depth sz g")
    case (Inl er)
    with assms show ?thesis by (simp add: loop_body_def)
  next
    case (Inr bg)
    obtain b g1 where bg: "bg = (b, g1)" by (cases bg)
    show ?thesis
    proof (cases b)
      case True
      with assms Inr bg obtain nd g2 where
        "st' = \<lparr>program = prog @ [nd], stack = carry_forward sz rest, gen = g2\<rparr>"
        by (auto simp: loop_body_def split: sum.splits)
      then show ?thesis using potential_carry_forward[of c sz rest depth] pot by simp
    next
      case False
      with assms Inr bg obtain fs f g2 where
        fs: "candidate_functions c rest depth sz = Inr fs" and
        ch: "choice fs g1 = Inr (f, g2)" and
        st': "st' = \<lparr>program = prog @ [PrimitiveNode f],
                     stack = replicate (arity f) (depth + 1, sz + int (arity f)) @ rest, gen = g2\<rparr>"
        by (auto simp: loop_body_def split: sum.splits if_splits)
      from ch have "f \<in> set fs" by (rule choice_mem)
      with fs have "f \<in> set (valid_functions c sz)"
        using candidate_functions_valid by blast
      from weight_function[OF this, of "depth + 1" depth] show ?thesis
        using st' pot by (simp add: potential_replicate)
    qed
  qed
qed

text \<open>
  \<^verbatim>\<open>while len(stack) != 0: ...\<close> followed by \<^verbatim>\<open>return program\<close>.  The result is the
  returned value (\<open>None\<close> or the program) or the exception that ended the call, each
  with the generator state.
\<close>

function generate_loop :: "condition \<Rightarrow> config \<Rightarrow> state \<Rightarrow> node list option outcome" where
  "generate_loop tc c st =
     (case stack st of
        [] \<Rightarrow> Inr (Some (program st), gen st)
      | ob # rest \<Rightarrow>
          (case loop_body tc c (program st) (fst ob) (snd ob) rest (gen st) of
             Inl er \<Rightarrow> Inl er
           | Inr (Return r g) \<Rightarrow> Inr (r, g)
           | Inr (Continue st') \<Rightarrow> generate_loop tc c st'))"
  by pat_completeness auto
termination
proof (relation "measure (\<lambda>(tc, c, st). potential c (stack st))")
  show "wf (measure (\<lambda>(tc, c, st). potential c (stack st)))" by simp
next
  fix tc :: condition and c and st :: state and ob rest x2 st'
  assume "stack st = ob # rest"
    and "loop_body tc c (program st) (fst ob) (snd ob) rest (gen st) = Inr x2"
    and "x2 = Continue st'"
  then show "((tc, c, st'), (tc, c, st)) \<in> measure (\<lambda>(tc, c, st). potential c (stack st))"
    using loop_body_decreases[of tc c "program st" "fst ob" "snd ob" rest "gen st" st'] by simp
qed

text \<open>
  \<^verbatim>\<open>generate_program_(primitive_set, min_depth, max_depth, min_size, max_size,
  desired_trait, ret_type, terminal_condition)\<close>.  The parameter \<^verbatim>\<open>ret_type\<close> only selects
  the two lists of the primitive set and is left out.  An Isabelle name cannot end in an
  underscore, so the function is called \<open>generate_program'\<close> here.
\<close>

definition initial_state :: "rng \<Rightarrow> state" where
  "initial_state g = \<lparr>program = [], stack = [(0, 1)], gen = g\<rparr>"

definition generate_program' ::
  "primitive_set \<Rightarrow> int \<Rightarrow> int \<Rightarrow> int \<Rightarrow> int \<Rightarrow> string \<Rightarrow> condition \<Rightarrow> rng
     \<Rightarrow> node list option outcome" where
  "generate_program' ps mind maxd mins maxs trait tc g =
     (case (if trait = ''depth'' then randint mind maxd g else randint mins maxs g) of
        Inl er \<Rightarrow> Inl er
      | Inr (dv, g1) \<Rightarrow>
          generate_loop tc
            \<lparr>pset = ps, min_depth = mind, max_depth = maxd, min_size = mins, max_size = maxs,
             desired_trait = trait, desired_value = dv\<rparr>
            (initial_state g1))"

definition generate_grow ::
  "primitive_set \<Rightarrow> int \<Rightarrow> int \<Rightarrow> int \<Rightarrow> int \<Rightarrow> string \<Rightarrow> rng
     \<Rightarrow> node list option outcome" where
  "generate_grow ps mind maxd mins maxs trait g =
     generate_program' ps mind maxd mins maxs trait terminal_condition g"

text \<open>The loop cut after \<open>n\<close> iterations: \<open>Continue st\<close> when it is still running, in
  state \<open>st\<close>.\<close>

fun iterate :: "nat \<Rightarrow> condition \<Rightarrow> config \<Rightarrow> state \<Rightarrow> (error \<times> rng) + step" where
  "iterate 0 tc c st = Inr (Continue st)"
| "iterate (Suc n) tc c st =
     (case stack st of
        [] \<Rightarrow> Inr (Return (Some (program st)) (gen st))
      | ob # rest \<Rightarrow>
          (case loop_body tc c (program st) (fst ob) (snd ob) rest (gen st) of
             Inl er \<Rightarrow> Inl er
           | Inr (Return r g) \<Rightarrow> Inr (Return r g)
           | Inr (Continue st') \<Rightarrow> iterate n tc c st'))"

section \<open>Programs as trees\<close>

text \<open>
  \<^verbatim>\<open>generate_program_\<close> returns the nodes of a tree in prefix order (the list DEAP's
  \<^verbatim>\<open>PrimitiveTree\<close> is built from).  The tree itself, its size (number of nodes) and its
  depth (edges on the longest path from the root):
\<close>

datatype tree = Leaf node | Branch primitive "tree list"

fun flatten :: "tree \<Rightarrow> node list" where
  "flatten (Leaf nd) = [nd]"
| "flatten (Branch f ts) = PrimitiveNode f # concat (map flatten ts)"

fun tree_size :: "tree \<Rightarrow> nat" where
  "tree_size (Leaf nd) = 1"
| "tree_size (Branch f ts) = 1 + sum_list (map tree_size ts)"

fun tree_depth :: "tree \<Rightarrow> nat" where
  "tree_depth (Leaf nd) = 0"
| "tree_depth (Branch f ts) = (if ts = [] then 0 else 1 + max_list (map tree_depth ts))"

text \<open>A leaf is a terminal; a function node has as many subtrees as its arity.\<close>

fun is_terminal_node :: "node \<Rightarrow> bool" where
  "is_terminal_node (PrimitiveNode f) = False"
| "is_terminal_node (TerminalNode v) = True"
| "is_terminal_node (EphemeralNode x) = True"

fun well_formed :: "tree \<Rightarrow> bool" where
  "well_formed (Leaf nd) = is_terminal_node nd"
| "well_formed (Branch f ts) = (length ts = arity f \<and> list_all well_formed ts)"

text \<open>The number of ephemeral constants in a program.\<close>

fun is_ephemeral_node :: "node \<Rightarrow> bool" where
  "is_ephemeral_node (EphemeralNode x) = True"
| "is_ephemeral_node nd = False"

definition ephemeral_count :: "node list \<Rightarrow> nat" where
  "ephemeral_count prog = length (filter is_ephemeral_node prog)"

text \<open>
  Two invariants of the loop: the size field of the obligation on top of the stack is the
  size of the program built so far (nodes appended plus obligations pending), and that
  size does not exceed \<open>max_size\<close>.
\<close>

definition size_tracked :: "state \<Rightarrow> bool" where
  "size_tracked st \<longleftrightarrow>
     (case stack st of [] \<Rightarrow> True
      | ob # rest \<Rightarrow> snd ob = int (length (program st) + length (stack st)))"

definition size_bounded :: "config \<Rightarrow> state \<Rightarrow> bool" where
  "size_bounded c st \<longleftrightarrow> int (length (program st) + length (stack st)) \<le> max_size c"

text \<open>A tree fits an obligation when it is well formed and, hung at the obligation's depth,
  stays within \<open>max_depth\<close>.\<close>

definition fits :: "config \<Rightarrow> obligation \<Rightarrow> tree \<Rightarrow> bool" where
  "fits c ob t \<longleftrightarrow> well_formed t \<and> fst ob + int (tree_depth t) \<le> max_depth c"

text \<open>
  Relations between generator states: \<open>advances g g'\<close> says that \<open>g'\<close> is \<open>g\<close> after some
  draws; \<open>agree n g h\<close> says that \<open>g\<close> and \<open>h\<close> stand at the same position and deliver the
  same draws up to position \<open>n\<close>.
\<close>

definition advances :: "rng \<Rightarrow> rng \<Rightarrow> bool" where
  "advances g g' \<longleftrightarrow> source g' = source g \<and> cursor g \<le> cursor g'"

definition agree :: "nat \<Rightarrow> rng \<Rightarrow> rng \<Rightarrow> bool" where
  "agree n g h \<longleftrightarrow> cursor h = cursor g \<and> (\<forall>i. cursor g \<le> i \<and> i < n \<longrightarrow> source h i = source g i)"

text \<open>The example primitive set of the theorems below: one variable, the ephemeral
  constant with a pool of two values, a unary and a binary function; two terminals and
  two primitives give the terminal ratio \<open>0.5\<close>.\<close>

definition example_set :: primitive_set where
  "example_set =
     \<lparr>terminals = [Terminal ''v0'', EphemeralClass],
      primitives = [Primitive ''sin'' 1, Primitive ''add'' 2],
      terminalRatio = (1, - 1),
      ephemeral_constants = [(1, - 2), (3, - 2)]\<rparr>"

text \<open>Two random sources: one whose draws are all \<open>0\<close>, one that repeats a fixed
  sequence.\<close>

definition zero_rng :: rng where
  "zero_rng = \<lparr>source = (\<lambda>i. 0), cursor = 0\<rparr>"

definition cycle_rng :: rng where
  "cycle_rng = \<lparr>source = (\<lambda>i. [2, 1, 5, 3, 0, 7, 7, 1, 4, 4, 9, 0, 2] ! (i mod 13)), cursor = 0\<rparr>"

text \<open>What a caller observes of a call: the exception or the returned value, and the
  position of the generator afterwards.\<close>

definition observe :: "'a outcome \<Rightarrow> (error \<times> nat) + ('a \<times> nat)" where
  "observe r = (case r of Inl (er, g) \<Rightarrow> Inl (er, cursor g) | Inr (p, g) \<Rightarrow> Inr (p, cursor g))"

text \<open>Further primitive sets for the theorems: one without terminals, one whose only terminal
  is the ephemeral constant with an empty pool (what \<^verbatim>\<open>generate_primitive_set\<close> builds for
  no variables and \<^verbatim>\<open>num_constants = 0\<close>), and one with a single unary function.\<close>

definition no_terminal_set :: primitive_set where
  "no_terminal_set =
     \<lparr>terminals = [], primitives = [Primitive ''sin'' 1], terminalRatio = (0, 0),
      ephemeral_constants = []\<rparr>"

definition empty_pool_set :: primitive_set where
  "empty_pool_set =
     \<lparr>terminals = [EphemeralClass], primitives = [Primitive ''add'' 2],
      terminalRatio = (1, - 1), ephemeral_constants = []\<rparr>"

definition unary_set :: primitive_set where
  "unary_set =
     \<lparr>terminals = [Terminal ''v0''], primitives = [Primitive ''sin'' 1], terminalRatio = (1, - 1),
      ephemeral_constants = []\<rparr>"

section \<open>The sampling script\<close>

text \<open>
  The function sets of the script, as pairs of a function name and an arity
  (\<^verbatim>\<open>nicolau_a\<close>, \<^verbatim>\<open>nicolau_b\<close>, \<^verbatim>\<open>nicolau_c\<close>).
\<close>

definition nicolau_a :: "(string \<times> nat) list" where
  "nicolau_a = [(''add'', 2), (''sub'', 2), (''mul'', 2), (''aq'', 2)]"


definition nicolau_c :: "(string \<times> nat) list" where
  "nicolau_c = [(''exp'', 1), (''log'', 1), (''sqrt'', 1), (''sin'', 1), (''tanh'', 1),
                (''add'', 2), (''sub'', 2), (''mul'', 2), (''aq'', 2)]"

text \<open>\<^verbatim>\<open>num_size_bins = int(math.ceil(max_possible_size/bin_size))\<close>\<close>

definition num_size_bins :: "int \<Rightarrow> int \<Rightarrow> error + int" where
  "num_size_bins max_possible_size bin_size =
     (case int_truediv max_possible_size bin_size of
        Inl er \<Rightarrow> Inl er
      | Inr x \<Rightarrow> Inr (math_ceil x))"

text \<open>
  \<^verbatim>\<open>min_size = i*bin_size+1\<close> and
  \<^verbatim>\<open>max_size = max_possible_size if i==num_size_bins-1 else (i+1)*bin_size\<close>
\<close>

definition bin_range :: "int \<Rightarrow> int \<Rightarrow> int \<Rightarrow> int \<Rightarrow> int \<times> int" where
  "bin_range max_possible_size bin_size nbins i =
     (i * bin_size + 1, if i = nbins - 1 then max_possible_size else (i + 1) * bin_size)"

text \<open>
  The size ranges that the loop \<^verbatim>\<open>for i in range(num_size_bins)\<close> visits for one entry
  \<^verbatim>\<open>(function_set, max_depth, bin_size)\<close> of \<^verbatim>\<open>function_sets\<close>.  Python's \<^verbatim>\<open>max\<close> of
  an empty list raises ValueError.
\<close>

definition size_bins :: "(string \<times> nat) list \<Rightarrow> int \<Rightarrow> int \<Rightarrow> error + (int \<times> int) list" where
  "size_bins function_set maxd bin_size =
     (if function_set = [] then Inl ValueError
      else
        (case get_max_size (max_list (map snd function_set)) maxd of
           Inl er \<Rightarrow> Inl er
         | Inr max_possible_size \<Rightarrow>
             (case num_size_bins max_possible_size bin_size of
                Inl er \<Rightarrow> Inl er
              | Inr n \<Rightarrow> Inr (map (bin_range max_possible_size bin_size n) [0..n - 1]))))"

text \<open>
  One pass of the loop \<^verbatim>\<open>for j in range(num_programs_per_size_bin)\<close> for a size bin, after
  \<^verbatim>\<open>generate_program\<close> has returned.  The bin owns the entry
  \<^verbatim>\<open>program_dict[name][i]\<close> (six lists), the list \<^verbatim>\<open>primitive_trees[name][i]\<close>, and what
  the pass prints.
\<close>

record bin_config =
  function_names :: "string list"
  variable_names :: "string list"
  constant_names :: "double list"
  bin_min_depth :: int
  bin_max_depth :: int
  bin_min_size :: int
  bin_max_size :: int
  num_programs_per_size_bin :: int

record bin_state =
  primitive_trees :: "node list list"
  programs :: "string list"
  depths :: "int list"
  sizes :: "int list"
  function_counts :: "int list"
  variable_counts :: "int list"
  constant_counts :: "int list"
  printed :: "string list"

definition empty_bin :: bin_state where
  "empty_bin =
     \<lparr>primitive_trees = [], programs = [], depths = [], sizes = [], function_counts = [],
      variable_counts = [], constant_counts = [], printed = []\<rparr>"

text \<open>
  The label that \<^verbatim>\<open>gp.graph\<close> gives a node: the name of a primitive, the value of a
  terminal (the variable's name, or the float of an ephemeral constant).
\<close>

datatype label = NameLabel string | ValueLabel double

fun node_label :: "node \<Rightarrow> label" where
  "node_label (PrimitiveNode f) = NameLabel (pname f)"
| "node_label (TerminalNode v) = NameLabel v"
| "node_label (EphemeralNode x) = ValueLabel x"

text \<open>\<^verbatim>\<open>xs.index(x)\<close>: the first position of \<open>x\<close>, if any.\<close>

fun index_of :: "'a \<Rightarrow> 'a list \<Rightarrow> nat option" where
  "index_of x [] = None"
| "index_of x (y # ys) = (if x = y then Some 0 else map_option Suc (index_of x ys))"

definition bump :: "nat \<Rightarrow> int list \<Rightarrow> int list" where
  "bump i xs = xs[i := xs ! i + 1]"

text \<open>
  The loop \<^verbatim>\<open>for node in program_nodes\<close> that counts the nodes by kind.  A label that is in
  none of the three name lists makes \<^verbatim>\<open>constant_names.index\<close> raise ValueError.
\<close>

fun tally ::
  "bin_config \<Rightarrow> label list \<Rightarrow> int list \<times> int list \<times> int list
     \<Rightarrow> error + (int list \<times> int list \<times> int list)" where
  "tally cf [] counts = Inr counts"
| "tally cf (l # ls) (fc, vc, cc) =
     (case l of
        NameLabel s \<Rightarrow>
          (case index_of s (function_names cf) of
             Some i \<Rightarrow> tally cf ls (bump i fc, vc, cc)
           | None \<Rightarrow>
               (case index_of s (variable_names cf) of
                  Some i \<Rightarrow> tally cf ls (fc, bump i vc, cc)
                | None \<Rightarrow> Inl ValueError))
      | ValueLabel x \<Rightarrow>
          (case index_of x (constant_names cf) of
             Some i \<Rightarrow> tally cf ls (fc, vc, bump i cc)
           | None \<Rightarrow> Inl ValueError))"

text \<open>\<^verbatim>\<open>new if old == [] else [sum(i) for i in list(zip(old, new))]\<close>\<close>

definition merge_counts :: "int list \<Rightarrow> int list \<Rightarrow> int list" where
  "merge_counts old new = (if old = [] then new else map (\<lambda>(a, b). a + b) (zip old new))"

text \<open>
  The pass for a returned program.  \<open>program_str\<close> and \<open>depth\<close> are what DEAP's
  \<^verbatim>\<open>PrimitiveTree\<close> reports for it (\<^verbatim>\<open>str(program)\<close>, \<^verbatim>\<open>program.height\<close>); the size
  \<^verbatim>\<open>program_nodes[-1]+1\<close> is the length of the node list, and indexing an empty list
  raises IndexError.
\<close>

definition record_program ::
  "bin_config \<Rightarrow> node list \<Rightarrow> string \<Rightarrow> int \<Rightarrow> bin_state \<Rightarrow> error + bin_state" where
  "record_program cf prog program_str depth st =
     (if prog = [] then Inl IndexError
      else
        let sz = int (length prog);
            st1 = st\<lparr>primitive_trees := primitive_trees st @ [prog]\<rparr>
        in if bin_max_depth cf < depth \<or> bin_max_size cf < sz
           then Inr (st1\<lparr>printed := printed st1 @ [''Uh-oh...'']\<rparr>)
           else if int (length (programs st1)) < num_programs_per_size_bin cf
                   \<and> count_list (programs st1) program_str = 0
           then
             (case tally cf (map node_label prog)
                     (replicate (length (function_names cf)) 0,
                      replicate (length (variable_names cf)) 0,
                      replicate (length (constant_names cf)) 0) of
                Inl er \<Rightarrow> Inl er
              | Inr counts \<Rightarrow>
                  Inr (st1\<lparr>programs := programs st1 @ [program_str],
                          depths := depths st1 @ [depth],
                          sizes := sizes st1 @ [sz],
                          function_counts := merge_counts (function_counts st1) (fst counts),
                          variable_counts := merge_counts (variable_counts st1) (fst (snd counts)),
                          constant_counts := merge_counts (constant_counts st1) (snd (snd counts))\<rparr>))
           else Inr st1)"



text \<open>The first bin of a configuration with bin width 1 and \<^verbatim>\<open>min_depth = 1\<close>, over the
  names of the example primitive set.\<close>

definition first_bin :: bin_config where
  "first_bin =
     \<lparr>function_names = [''sin'', ''add''], variable_names = [''v0''],
      constant_names = [(1, - 2), (3, - 2)],
      bin_min_depth = 1, bin_max_depth = 3, bin_min_size = 1, bin_max_size = 1,
      num_programs_per_size_bin = 1\<rparr>"


subsection \<open>The script with its random draws\<close>

text \<open>
  The script seeds the generator once (\<^verbatim>\<open>random.seed(37)\<close>) and then draws from it in
  \<^verbatim>\<open>generate_primitive_set\<close> and in every call of the builder.  This part follows the
  generator through the module-level code that builds \<^verbatim>\<open>program_dict\<close> and
  \<^verbatim>\<open>primitive_trees\<close>.

  \<^verbatim>\<open>random.uniform(-1,1)\<close> is \<^verbatim>\<open>a + (b-a) * self.random()\<close> with \<open>a = -1\<close> and \<open>b = 1\<close>.  For
  \<^verbatim>\<open>random()\<close> \<open>= m * 2^-53\<close> the product \<open>2 * m * 2^-53\<close> and the sum \<open>(2 * m - 2^53) * 2^-53\<close>
  are doubles (the numerator is even and at most \<open>2^53\<close> in magnitude), so nothing is
  rounded.
\<close>

definition uniform :: "rng \<Rightarrow> double \<times> rng" where
  "uniform g = ((2 * fst (fst (random g)) - 2 ^ 53, - 53), snd (random g))"

text \<open>\<^verbatim>\<open>for i in range(num_constants): ephemeral_constants.append(random.uniform(-1,1))\<close>\<close>

fun uniform_list :: "nat \<Rightarrow> rng \<Rightarrow> double list \<times> rng" where
  "uniform_list 0 g = ([], g)"
| "uniform_list (Suc n) g =
     (fst (uniform g) # fst (uniform_list n (snd (uniform g))),
      snd (uniform_list n (snd (uniform g))))"

text \<open>\<^verbatim>\<open>str(i)\<close> for \<open>i \<ge> 0\<close>.\<close>

fun str_nat :: "nat \<Rightarrow> string" where
  "str_nat n =
     (if n < 10 then [''0123456789'' ! n]
      else str_nat (n div 10) @ [''0123456789'' ! (n mod 10)])"

declare str_nat.simps [simp del]

type_synonym function_set = "(string \<times> nat) list"

text \<open>
  \<^verbatim>\<open>generate_primitive_set(function_set, num_variables, num_constants, erc_name)\<close>; the
  name of the ephemeral constant plays no role here and is left out.  What DEAP does:
  \<^verbatim>\<open>gp.PrimitiveSet("main", num_variables, prefix="v")\<close> registers the terminals
  \<open>v0, v1, \<dots>\<close>; \<^verbatim>\<open>addPrimitive\<close> asserts \<open>arity > 0\<close> and appends the primitive;
  \<^verbatim>\<open>addEphemeralConstant\<close> appends the class to the terminals; \<^verbatim>\<open>terminalRatio\<close> is
  \<^verbatim>\<open>terms_count / float(terms_count + prims_count)\<close>, which DEAP computes when the attribute
  is read and which is computed here when the set is built (there is at least one
  terminal, so the division cannot fail).
\<close>

definition generate_primitive_set ::
  "function_set \<Rightarrow> int \<Rightarrow> int \<Rightarrow> rng \<Rightarrow> (primitive_set \<times> double list) outcome" where
  "generate_primitive_set function_set num_variables num_constants g =
     (if 0 \<in> set (map snd function_set) then Inl (AssertionError, g)
      else
        let constants = fst (uniform_list (nat num_constants) g);
            g1 = snd (uniform_list (nat num_constants) g);
            terms = map (\<lambda>i. Terminal (''v'' @ str_nat i)) [0..<nat num_variables] @ [EphemeralClass];
            prims = map (\<lambda>(name, a). Primitive name a) function_set
        in case int_truediv (int (length terms)) (int (length terms) + int (length prims)) of
             Inl er \<Rightarrow> Inl (er, g1)
           | Inr ratio \<Rightarrow>
               Inr ((\<lparr>terminals = terms, primitives = prims, terminalRatio = ratio,
                      ephemeral_constants = constants\<rparr>, constants), g1))"

text \<open>
  The loop \<^verbatim>\<open>for j in range(num_programs_per_size_bin)\<close> for one size bin, \<open>j\<close> passes of
  it: a call of \<^verbatim>\<open>generate_program\<close> (which, for \<^verbatim>\<open>gen_strategy = 'grow'\<close>, is
  \<^verbatim>\<open>generate_grow\<close>) with the desired trait \<^verbatim>\<open>'size'\<close>, then \<^verbatim>\<open>continue\<close> for \<open>None\<close>
  and the pass above for a program.
  \<open>tree_str\<close> and \<open>tree_height\<close> stand for \<^verbatim>\<open>str(program)\<close> and \<^verbatim>\<open>program.height\<close> of
  DEAP's \<^verbatim>\<open>PrimitiveTree\<close>, which are functions of the node list.
\<close>

fun fill_bin ::
  "(node list \<Rightarrow> string) \<Rightarrow> (node list \<Rightarrow> int) \<Rightarrow> primitive_set \<Rightarrow> bin_config \<Rightarrow> nat
     \<Rightarrow> bin_state \<Rightarrow> rng \<Rightarrow> bin_state outcome" where
  "fill_bin tree_str tree_height ps cf 0 st g = Inr (st, g)"
| "fill_bin tree_str tree_height ps cf (Suc j) st g =
     (case generate_grow ps (bin_min_depth cf) (bin_max_depth cf) (bin_min_size cf)
             (bin_max_size cf) ''size'' g of
        Inl e \<Rightarrow> Inl e
      | Inr (None, g1) \<Rightarrow> fill_bin tree_str tree_height ps cf j st g1
      | Inr (Some prog, g1) \<Rightarrow>
          (case record_program cf prog (tree_str prog) (tree_height prog) st of
             Inl er \<Rightarrow> Inl (er, g1)
           | Inr st1 \<Rightarrow> fill_bin tree_str tree_height ps cf j st1 g1))"

text \<open>The loop \<^verbatim>\<open>for i in range(num_size_bins)\<close>: every bin starts empty.\<close>

fun fill_bins ::
  "(node list \<Rightarrow> string) \<Rightarrow> (node list \<Rightarrow> int) \<Rightarrow> primitive_set \<Rightarrow> bin_config list
     \<Rightarrow> rng \<Rightarrow> bin_state list outcome" where
  "fill_bins tree_str tree_height ps [] g = Inr ([], g)"
| "fill_bins tree_str tree_height ps (cf # cfs) g =
     (case fill_bin tree_str tree_height ps cf (nat (num_programs_per_size_bin cf)) empty_bin g of
        Inl e \<Rightarrow> Inl e
      | Inr (st, g1) \<Rightarrow>
          (case fill_bins tree_str tree_height ps cfs g1 of
             Inl e \<Rightarrow> Inl e
           | Inr (sts, g2) \<Rightarrow> Inr (st # sts, g2)))"

text \<open>
  The body of \<^verbatim>\<open>for name, (function_set, max_depth, bin_size) in function_sets.items()\<close>
  for the module-level settings \<^verbatim>\<open>opcode_width\<close> and \<^verbatim>\<open>num_programs_per_size_bin\<close>
  (\<open>k\<close>): the sizes of the bins, the primitive set with its constants, and the bins
  filled one after the other with \<^verbatim>\<open>min_depth = 1\<close>.  The result is the list of
  constants (which the script also writes to \<^verbatim>\<open>constants.txt\<close>) and the bins.
\<close>

definition sample_function_set ::
  "(node list \<Rightarrow> string) \<Rightarrow> (node list \<Rightarrow> int) \<Rightarrow> nat \<Rightarrow> int \<Rightarrow> function_set \<Rightarrow> int \<Rightarrow> int
     \<Rightarrow> rng \<Rightarrow> (double list \<times> bin_state list) outcome" where
  "sample_function_set tree_str tree_height opcode_width k function_set maxd bin_size g =
     (case size_bins function_set maxd bin_size of
        Inl er \<Rightarrow> Inl (er, g)
      | Inr ranges \<Rightarrow>
          let num_functions = int (length function_set);
              num_variables = num_functions - 1;
              num_constants = 2 ^ opcode_width - (num_functions + 1) - num_variables
          in case generate_primitive_set function_set num_variables num_constants g of
               Inl e \<Rightarrow> Inl e
             | Inr ((ps, constants), g1) \<Rightarrow>
                 (case fill_bins tree_str tree_height ps
                         (map (\<lambda>(mins, maxs).
                                 \<lparr>function_names = map fst function_set,
                                  variable_names = map (\<lambda>i. ''v'' @ str_nat i) [0..<nat num_variables],
                                  constant_names = constants,
                                  bin_min_depth = 1, bin_max_depth = maxd,
                                  bin_min_size = mins, bin_max_size = maxs,
                                  num_programs_per_size_bin = k\<rparr>) ranges) g1 of
                    Inl e \<Rightarrow> Inl e
                  | Inr (bins, g2) \<Rightarrow> Inr ((constants, bins), g2)))"

text \<open>
  \<^verbatim>\<open>function_sets\<close> is a dict from a name to \<^verbatim>\<open>(function_set, max_depth, bin_size)\<close>, read
  in insertion order; its keys are distinct.  Before the loop the script computes
  \<^verbatim>\<open>max_arities\<close> and \<^verbatim>\<open>max_num_size_bins\<close> over all function sets, and gives
  \<^verbatim>\<open>program_dict[name]\<close> and \<^verbatim>\<open>primitive_trees[name]\<close> that many (empty) bins.
\<close>

type_synonym function_sets = "(string \<times> function_set \<times> int \<times> int) list"

fun max_arities :: "function_sets \<Rightarrow> error + nat list" where
  "max_arities [] = Inr []"
| "max_arities ((name, function_set, maxd, bin_size) # rest) =
     (if function_set = [] then Inl ValueError
      else
        (case max_arities rest of
           Inl er \<Rightarrow> Inl er
         | Inr ms \<Rightarrow> Inr (max_list (map snd function_set) # ms)))"

fun bin_counts :: "function_sets \<Rightarrow> nat list \<Rightarrow> error + int list" where
  "bin_counts ((name, function_set, maxd, bin_size) # rest) (m # ms) =
     (case get_max_size m maxd of
        Inl er \<Rightarrow> Inl er
      | Inr mps \<Rightarrow>
          (case num_size_bins mps bin_size of
             Inl er \<Rightarrow> Inl er
           | Inr n \<Rightarrow>
               (case bin_counts rest ms of
                  Inl er \<Rightarrow> Inl er
                | Inr ns \<Rightarrow> Inr (n # ns))))"
| "bin_counts fsets ms = Inr []"

definition max_num_size_bins :: "function_sets \<Rightarrow> error + int" where
  "max_num_size_bins fsets =
     (case max_arities fsets of
        Inl er \<Rightarrow> Inl er
      | Inr ms \<Rightarrow>
          (case bin_counts fsets ms of
             Inl er \<Rightarrow> Inl er
           | Inr ns \<Rightarrow> if ns = [] then Inl ValueError else Inr (fold max (tl ns) (hd ns))))"

text \<open>The loop over the function sets; \<open>n\<close> is \<^verbatim>\<open>max_num_size_bins\<close>, and the bins that the
  loop over \<open>i\<close> does not visit stay empty.\<close>

fun sample_function_sets ::
  "(node list \<Rightarrow> string) \<Rightarrow> (node list \<Rightarrow> int) \<Rightarrow> nat \<Rightarrow> int \<Rightarrow> int \<Rightarrow> function_sets
     \<Rightarrow> rng \<Rightarrow> (string \<times> double list \<times> bin_state list) list outcome" where
  "sample_function_sets tree_str tree_height opcode_width k n [] g = Inr ([], g)"
| "sample_function_sets tree_str tree_height opcode_width k n
     ((name, function_set, maxd, bin_size) # rest) g =
     (case sample_function_set tree_str tree_height opcode_width k function_set maxd bin_size g of
        Inl e \<Rightarrow> Inl e
      | Inr ((constants, bins), g1) \<Rightarrow>
          (case sample_function_sets tree_str tree_height opcode_width k n rest g1 of
             Inl e \<Rightarrow> Inl e
           | Inr (others, g2) \<Rightarrow>
               Inr ((name, constants, bins @ replicate (nat n - length bins) empty_bin) # others,
                    g2)))"

text \<open>
  The corpus: for every function set its constants and its bins (the entries of
  \<^verbatim>\<open>program_dict\<close>, the trees of \<^verbatim>\<open>primitive_trees\<close> and what was printed), from the
  generator state \<open>g\<close> that \<^verbatim>\<open>random.seed\<close> has set.
\<close>

definition generate_corpus ::
  "(node list \<Rightarrow> string) \<Rightarrow> (node list \<Rightarrow> int) \<Rightarrow> nat \<Rightarrow> int \<Rightarrow> function_sets \<Rightarrow> rng
     \<Rightarrow> (string \<times> double list \<times> bin_state list) list outcome" where
  "generate_corpus tree_str tree_height opcode_width k fsets g =
     (case max_num_size_bins fsets of
        Inl er \<Rightarrow> Inl (er, g)
      | Inr n \<Rightarrow> sample_function_sets tree_str tree_height opcode_width k n fsets g)"

section \<open>Facts about the float model\<close>

text \<open>The value of a double \<open>(m, x)\<close> is \<open>m * 2 powi x\<close>; the lemmas below relate the
  integer computations of the model to that value.\<close>

lemma pow2_nonneg: "0 \<le> x \<Longrightarrow> (2::real) powi x = 2 ^ nat x"
  by (simp add: power_int_def)

lemma pow2_neg: "x < 0 \<Longrightarrow> (2::real) powi x = 1 / 2 ^ nat (- x)"
  by (simp add: power_int_def field_simps)

lemma scale_pos: "0 < b \<Longrightarrow> 0 < snd (scale a b x)"
  by (simp add: scale_def)

lemma scale_real:
  "0 < b \<Longrightarrow> real_of_int (fst (scale a b x)) / real_of_int (snd (scale a b x))
              = real_of_int a / real_of_int b / 2 powi x"
  by (cases "0 \<le> x") (simp_all add: scale_def pow2_nonneg pow2_neg)

lemma bitlen_real:
  assumes "0 < a"
  shows "2 powi (bitlen a - 1) \<le> real_of_int a" and "real_of_int a < 2 powi (bitlen a)"
proof -
  from assms have b1: "1 \<le> bitlen a" by (simp add: bitlen_alt_def)
  from bitlen_bounds[OF assms] have lo: "2 ^ nat (bitlen a - 1) \<le> a" and hi: "a < 2 ^ nat (bitlen a)"
    by simp_all
  from lo have "real_of_int (2 ^ nat (bitlen a - 1)) \<le> real_of_int a" by (rule of_int_le_iff[THEN iffD2])
  then show "2 powi (bitlen a - 1) \<le> real_of_int a" using b1 by (simp add: pow2_nonneg)
  from hi have "real_of_int a < real_of_int (2 ^ nat (bitlen a))" by (rule of_int_less_iff[THEN iffD2])
  then show "real_of_int a < 2 powi (bitlen a)" using b1 by (simp add: pow2_nonneg)
qed

lemma binade_bounds:
  assumes a: "0 < a" and b: "0 < b"
  shows "2 powi (binade a b) \<le> real_of_int a / real_of_int b"
    and "real_of_int a / real_of_int b < 2 powi (binade a b + 1)"
proof -
  let ?k = "bitlen a - bitlen b"
  let ?q = "real_of_int a / real_of_int b"
  have rb: "0 < real_of_int b" using b by simp
  have test: "snd (scale a b ?k) \<le> fst (scale a b ?k) \<longleftrightarrow> 2 powi ?k \<le> ?q"
  proof -
    have "snd (scale a b ?k) \<le> fst (scale a b ?k)
          \<longleftrightarrow> 1 \<le> real_of_int (fst (scale a b ?k)) / real_of_int (snd (scale a b ?k))"
      using scale_pos[OF b, of a ?k] by (simp add: pos_le_divide_eq)
    also have "\<dots> \<longleftrightarrow> 1 \<le> ?q / 2 powi ?k" by (simp only: scale_real[OF b])
    also have "\<dots> \<longleftrightarrow> 2 powi ?k \<le> ?q"
      by (subst pos_le_divide_eq) simp_all
    finally show ?thesis .
  qed
  have lo: "2 powi (?k - 1) \<le> ?q"
  proof -
    have "(2::real) powi (?k - 1) = 2 powi (bitlen a - 1) / 2 powi (bitlen b)"
      using power_int_diff[of "2::real" "bitlen a - 1" "bitlen b"] by (simp add: algebra_simps)
    also have "\<dots> \<le> real_of_int a / 2 powi (bitlen b)"
      using bitlen_real(1)[OF a] by (simp add: divide_right_mono)
    also have "\<dots> \<le> ?q"
      using bitlen_real(2)[OF b] a rb by (simp add: frac_le)
    finally show ?thesis .
  qed
  have hi: "?q < 2 powi (?k + 1)"
  proof -
    have "?q < 2 powi (bitlen a) / real_of_int b"
      using bitlen_real(2)[OF a] rb by (simp add: divide_strict_right_mono)
    also have "\<dots> \<le> 2 powi (bitlen a) / 2 powi (bitlen b - 1)"
      using bitlen_real(1)[OF b] by (simp add: frac_le)
    also have "\<dots> = 2 powi (?k + 1)"
      using power_int_diff[of "2::real" "bitlen a" "bitlen b - 1"] by (simp add: algebra_simps)
    finally show ?thesis .
  qed
  show "2 powi (binade a b) \<le> ?q"
    using test lo by (simp add: binade_def Let_def)
  show "?q < 2 powi (binade a b + 1)"
    using test hi by (auto simp: binade_def Let_def not_le)
qed


lemma pow2_less_cancel: "(2::real) powi m < 2 powi n \<Longrightarrow> m < n"
  using power_int_increasing[of n m "2::real"] by (cases "m < n") simp_all

lemma binade_range:
  assumes a: "0 < a" and b: "0 < b" and lo: "L \<le> 0" "b \<le> a * 2 ^ nat (- L)" and hi: "a < b * 2 ^ U"
  shows "L \<le> binade a b \<and> binade a b < int U"
proof -
  let ?q = "real_of_int a / real_of_int b"
  have rb: "0 < real_of_int b" using b by simp
  have "real_of_int a < real_of_int (b * 2 ^ U)" using hi by (rule of_int_less_iff[THEN iffD2])
  then have "?q < 2 ^ U" using rb by (simp add: pos_divide_less_eq mult.commute)
  with binade_bounds(1)[OF a b] have "(2::real) powi (binade a b) < 2 powi (int U)" by simp
  then have up: "binade a b < int U" by (rule pow2_less_cancel)
  have "real_of_int b \<le> real_of_int (a * 2 ^ nat (- L))" using lo(2) by (rule of_int_le_iff[THEN iffD2])
  then have "1 / 2 ^ nat (- L) \<le> ?q" using rb by (simp add: field_simps)
  moreover have "(2::real) powi L = 1 / 2 ^ nat (- L)"
    using lo(1) by (cases "L = 0") (simp_all add: pow2_neg)
  ultimately have "(2::real) powi L < 2 powi (binade a b + 1)"
    using binade_bounds(2)[OF a b] by simp
  then have "L < binade a b + 1" by (rule pow2_less_cancel)
  with up show ?thesis by simp
qed

lemma round_half_even_exact: "0 < b \<Longrightarrow> round_half_even (b * n) b = n"
  by (simp add: round_half_even_def)



lemma scale_down: "x \<le> 0 \<Longrightarrow> scale a b x = (a * 2 ^ nat (- x), b)"
  by (cases "x = 0") (simp_all add: scale_def)

lemma frac_down: "x \<le> 0 \<Longrightarrow> frac (m, x) = (m, 2 ^ nat (- x))"
  by (cases "x = 0") (simp_all add: frac_def)

lemma fl_exact:
  assumes b: "0 < b" and n: "0 < n" "n < 2 ^ 53"
    and pq: "\<bar>p\<bar> = b * n" "\<bar>q\<bar> = b" "sgn p * sgn q = 1"
  shows "\<exists>x. fl p q = Inr (n * 2 ^ nat (- x), x) \<and> x \<le> 0"
proof -
  let ?a = "b * n"
  let ?e = "binade ?a b"
  have a: "0 < ?a" using b n by simp
  have "b \<le> ?a * 2 ^ nat (- 0)" using b n by simp
  moreover have "?a < b * 2 ^ 53" using b n by simp
  ultimately have e: "0 \<le> ?e \<and> ?e < int 53"
    using binade_range[OF a b, of 0 53] by simp
  let ?x = "?e - 52"
  have x: "?x \<le> 0" "max ?e (- 1022) - 52 = ?x" using e by simp_all
  have m: "round_half_even (fst (scale ?a b ?x)) (snd (scale ?a b ?x)) = n * 2 ^ nat (- ?x)"
    using round_half_even_exact[OF b, of "n * 2 ^ nat (- ?x)"]
    by (simp add: scale_down[OF x(1)] mult.assoc)
  have small: "\<not> (2::int) ^ 1024 \<le> n" using n(2) by simp
  have ne: "p \<noteq> 0" using pq(1) a by auto
  have "fl p q = Inr (n * 2 ^ nat (- ?x), ?x)"
    unfolding fl_def Let_def pq x(2) m using ne small x(1) e
    by (auto simp: pq(3))
  with x(1) show ?thesis by blast
qed

lemma trunc_int_scaled: "x \<le> 0 \<Longrightarrow> 0 \<le> n \<Longrightarrow> trunc_int (n * 2 ^ nat (- x), x) = n"
  by (simp add: trunc_int_def frac_down sgn_if)

lemma geometric_sum: "int m ^ Suc d - 1 = (int m - 1) * complete_tree_size m d"
proof (induction d)
  case 0
  show ?case by simp
next
  case (Suc d)
  have "int m ^ Suc (Suc d) - 1 = int m * (int m ^ Suc d - 1) + (int m - 1)"
    by (simp add: algebra_simps)
  also have "\<dots> = int m * ((int m - 1) * complete_tree_size m d) + (int m - 1)"
    by (simp only: Suc.IH)
  also have "\<dots> = (int m - 1) * complete_tree_size m (Suc d)"
    by (simp add: algebra_simps)
  finally show ?case .
qed

lemma complete_tree_size_pos: "0 < complete_tree_size m d"
  by (induction d) (simp_all add: add_pos_nonneg)

lemma get_max_size_exact:
  assumes "complete_tree_size m d < 2 ^ 53"
  shows "get_max_size m (int d) = Inr (complete_tree_size m d)"
proof (cases "m = 1")
  case True
  have "complete_tree_size 1 d = int d + 1" by (induction d) simp_all
  with True show ?thesis by (simp add: get_max_size_def)
next
  case False
  let ?N = "complete_tree_size m d"
  let ?p = "1 - int m ^ nat (int d + 1)"
  let ?q = "1 - int m"
  have p: "?p = ?q * ?N" using geometric_sum[of m d] by (simp add: nat_add_distrib algebra_simps)
  have q: "?q \<noteq> 0" using False by simp
  have N: "0 < ?N" by (rule complete_tree_size_pos)
  have "\<bar>?p\<bar> = \<bar>?q\<bar> * ?N" using N by (simp add: p abs_mult)
  moreover have "sgn ?p * sgn ?q = 1" using N q by (simp add: p sgn_mult)
  moreover have "0 < \<bar>?q\<bar>" using q by simp
  ultimately obtain x where "fl ?p ?q = Inr (?N * 2 ^ nat (- x), x)" "x \<le> 0"
    using fl_exact[of "\<bar>?q\<bar>" ?N ?p ?q] N assms by blast
  then show ?thesis
    using False q N by (simp add: get_max_size_def int_truediv_def trunc_int_scaled)
qed





section \<open>Invariants of the construction loop\<close>

declare generate_loop.simps [simp del]

lemma size_tracked_initial: "size_tracked (initial_state g)"
  by (simp add: size_tracked_def initial_state_def)

lemma size_bounded_initial: "1 \<le> max_size c \<Longrightarrow> size_bounded c (initial_state g)"
  by (simp add: size_bounded_def initial_state_def)

lemma loop_body_cases:
  assumes "loop_body tc c prog depth sz rest g = Inr (Continue st')"
  obtains (leaf) g1 nd g2 where
      "tc c rest depth sz g = Inr (True, g1)"
      "resolve_terminal (pset c) g1 = Inr (nd, g2)"
      "st' = \<lparr>program = prog @ [nd], stack = carry_forward sz rest, gen = g2\<rparr>"
  | (branch) g1 fs f g2 where
      "tc c rest depth sz g = Inr (False, g1)"
      "candidate_functions c rest depth sz = Inr fs"
      "choice fs g1 = Inr (f, g2)"
      "f \<in> set (valid_functions c sz)"
      "st' = \<lparr>program = prog @ [PrimitiveNode f],
               stack = replicate (arity f) (depth + 1, sz + int (arity f)) @ rest, gen = g2\<rparr>"
proof (cases "tc c rest depth sz g")
  case (Inl er)
  with assms show ?thesis by (simp add: loop_body_def)
next
  case (Inr bg)
  obtain b g1 where bg: "bg = (b, g1)" by (cases bg)
  show ?thesis
  proof (cases b)
    case True
    with assms Inr bg obtain nd g2 where
      rt: "resolve_terminal (pset c) g1 = Inr (nd, g2)" and
      st': "st' = \<lparr>program = prog @ [nd], stack = carry_forward sz rest, gen = g2\<rparr>"
      by (auto simp: loop_body_def split: sum.splits)
    have tcT: "tc c rest depth sz g = Inr (True, g1)" using Inr bg True by simp
    show ?thesis by (rule leaf[OF tcT rt st'])
  next
    case False
    with assms Inr bg obtain fs f g2 where
      fs: "candidate_functions c rest depth sz = Inr fs" and
      ch: "choice fs g1 = Inr (f, g2)" and
      st': "st' = \<lparr>program = prog @ [PrimitiveNode f],
                   stack = replicate (arity f) (depth + 1, sz + int (arity f)) @ rest, gen = g2\<rparr>"
      by (auto simp: loop_body_def split: sum.splits if_splits)
    from ch have "f \<in> set fs" by (rule choice_mem)
    with fs have mem: "f \<in> set (valid_functions c sz)"
      using candidate_functions_valid by blast
    have tcF: "tc c rest depth sz g = Inr (False, g1)" using Inr bg False by simp
    show ?thesis by (rule branch[OF tcF fs ch mem st'])
  qed
qed

lemma size_tracked_step:
  assumes pos: "\<forall>f \<in> set (primitives (pset c)). 1 \<le> arity f"
    and inv: "size_tracked st" and stk: "stack st = ob # rest"
    and step: "loop_body tc c (program st) (fst ob) (snd ob) rest (gen st) = Inr (Continue st')"
  shows "size_tracked st'" and "size_bounded c st \<Longrightarrow> size_bounded c st'"
proof -
  from inv stk have sz: "snd ob = int (length (program st) + length (stack st))"
    by (simp add: size_tracked_def)
  from step show "size_tracked st'"
  proof (cases rule: loop_body_cases)
    case (leaf g1 nd g2)
    show ?thesis
      using leaf(3) sz stk by (cases rest) (simp_all add: size_tracked_def carry_forward_def)
  next
    case (branch g1 fs f g2)
    from branch(4) pos have "1 \<le> arity f" by (auto simp: valid_functions_def)
    then obtain k where k: "arity f = Suc k" by (cases "arity f") simp_all
    show ?thesis
      using branch(5) sz stk k by (simp add: size_tracked_def)
  qed
  assume bd: "size_bounded c st"
  from step show "size_bounded c st'"
  proof (cases rule: loop_body_cases)
    case (leaf g1 nd g2)
    show ?thesis
      using leaf(3) bd stk by (cases rest) (simp_all add: size_bounded_def carry_forward_def)
  next
    case (branch g1 fs f g2)
    from branch(4) have "snd ob + int (arity f) \<le> max_size c"
      by (simp add: valid_functions_def)
    then show ?thesis
      using branch(5) sz stk by (simp add: size_bounded_def)
  qed
qed

lemma iterate_size_tracked:
  assumes pos: "\<forall>f \<in> set (primitives (pset c)). 1 \<le> arity f"
  shows "size_tracked st \<Longrightarrow> iterate n tc c st = Inr (Continue st') \<Longrightarrow> size_tracked st'"
proof (induction n arbitrary: st)
  case 0
  then show ?case by simp
next
  case (Suc n)
  from Suc.prems(2) obtain ob rest where stk: "stack st = ob # rest"
    by (cases "stack st") simp_all
  with Suc.prems(2) obtain st1 where
    step: "loop_body tc c (program st) (fst ob) (snd ob) rest (gen st) = Inr (Continue st1)"
    and rest: "iterate n tc c st1 = Inr (Continue st')"
    by (auto split: sum.splits step.splits)
  from size_tracked_step(1)[OF pos Suc.prems(1) stk step] rest show ?case
    by (rule Suc.IH)
qed

lemma loop_body_return: "loop_body tc c prog depth sz rest g = Inr (Return r g') \<Longrightarrow> r = None"
  by (auto simp: loop_body_def split: sum.splits if_splits prod.splits)

lemma generate_loop_unfold:
  "stack st = ob # rest \<Longrightarrow>
   generate_loop tc c st =
     (case loop_body tc c (program st) (fst ob) (snd ob) rest (gen st) of
        Inl er \<Rightarrow> Inl er
      | Inr (Return r g) \<Rightarrow> Inr (r, g)
      | Inr (Continue st') \<Rightarrow> generate_loop tc c st')"
  by (subst generate_loop.simps) simp

lemma generate_loop_done: "stack st = [] \<Longrightarrow> generate_loop tc c st = Inr (Some (program st), gen st)"
  by (subst generate_loop.simps) simp

lemma generate_loop_size:
  assumes pos: "\<forall>f \<in> set (primitives (pset c)). 1 \<le> arity f"
  shows "generate_loop tc c st = Inr (Some prog, g') \<Longrightarrow> size_tracked st \<Longrightarrow> size_bounded c st
         \<Longrightarrow> int (length prog) \<le> max_size c"
  using pos
proof (induction tc c st rule: generate_loop.induct)
  case (1 tc c st)
  show ?case
  proof (cases "stack st")
    case Nil
    with "1.prems"(1,3) show ?thesis by (simp add: generate_loop_done size_bounded_def)
  next
    case (Cons ob rest)
    with "1.prems"(1) obtain st1 where
      step: "loop_body tc c (program st) (fst ob) (snd ob) rest (gen st) = Inr (Continue st1)"
      and rest: "generate_loop tc c st1 = Inr (Some prog, g')"
      by (auto simp: generate_loop_unfold split: sum.splits step.splits dest: loop_body_return)
    from size_tracked_step[OF "1.prems"(4) "1.prems"(2) Cons step] "1.prems"(3)
    have "size_tracked st1" "size_bounded c st1" by simp_all
    with "1.IH"[OF Cons step refl rest] "1.prems"(4) show ?thesis by simp
  qed
qed

lemma max_list_le: "(\<And>x. x \<in> set xs \<Longrightarrow> x \<le> k) \<Longrightarrow> max_list xs \<le> k"
  by (induction xs) (auto simp: max_list_def)

lemma resolve_terminal_node: "resolve_terminal ps g = Inr (nd, g') \<Longrightarrow> is_terminal_node nd"
  by (auto simp: resolve_terminal_def split: sum.splits terminal.splits)

lemma fits_carry_forward: "list_all2 (fits c) (carry_forward sz rest) ts = list_all2 (fits c) rest ts"
  by (cases rest) (auto simp: carry_forward_def fits_def list_all2_Cons1)

lemma fits_branch:
  assumes us: "list_all2 (fits c) (replicate (arity f) (d + 1, s')) us" and d: "d \<le> max_depth c"
  shows "fits c (d, s) (Branch f us)"
proof -
  from us have len: "length us = arity f" by (auto dest: list_all2_lengthD)
  from us have each: "\<And>t. t \<in> set us \<Longrightarrow> fits c (d + 1, s') t"
    by (auto simp: list_all2_conv_all_nth in_set_conv_nth)
  have wf: "list_all well_formed us" using each by (auto simp: list_all_iff fits_def)
  have "max_list (map tree_depth us) \<le> nat (max_depth c - d - 1)"
  proof (rule max_list_le)
    fix x assume "x \<in> set (map tree_depth us)"
    then obtain t where "t \<in> set us" "x = tree_depth t" by auto
    with each[of t] have "d + 1 + int (tree_depth t) \<le> max_depth c" "x = tree_depth t"
      by (simp_all add: fits_def)
    then show "x \<le> nat (max_depth c - d - 1)" by linarith
  qed
  then have "us \<noteq> [] \<Longrightarrow> d + int (1 + max_list (map tree_depth us)) \<le> max_depth c"
    using each[of "hd us"] by (auto simp: fits_def)
  with len wf d show ?thesis by (simp add: fits_def)
qed

lemma generate_loop_forest:
  assumes tcP: "\<forall>rest depth sz g g1. tc c rest depth sz g = Inr (False, g1) \<longrightarrow> depth \<noteq> max_depth c"
  shows "generate_loop tc c st = Inr (Some prog, g') \<Longrightarrow> (\<forall>ob \<in> set (stack st). fst ob \<le> max_depth c)
         \<Longrightarrow> \<exists>ts. list_all2 (fits c) (stack st) ts \<and> prog = program st @ concat (map flatten ts)"
  using tcP
proof (induction tc c st rule: generate_loop.induct)
  case (1 tc c st)
  show ?case
  proof (cases "stack st")
    case Nil
    with "1.prems"(1) show ?thesis by (simp add: generate_loop_done)
  next
    case (Cons ob rest)
    with "1.prems"(1) obtain st1 where
      step: "loop_body tc c (program st) (fst ob) (snd ob) rest (gen st) = Inr (Continue st1)"
      and run: "generate_loop tc c st1 = Inr (Some prog, g')"
      by (auto simp: generate_loop_unfold split: sum.splits step.splits dest: loop_body_return)
    from "1.prems"(2) Cons have d: "fst ob \<le> max_depth c" and ds: "\<forall>ob \<in> set rest. fst ob \<le> max_depth c"
      by simp_all
    from step show ?thesis
    proof (cases rule: loop_body_cases)
      case (leaf g1 nd g2)
      have "\<forall>ob \<in> set (stack st1). fst ob \<le> max_depth c"
        using leaf(3) ds by (cases rest) (auto simp: carry_forward_def)
      from "1.IH"[OF Cons step refl run this "1.prems"(3)] obtain ts where
        ts: "list_all2 (fits c) (stack st1) ts" "prog = program st1 @ concat (map flatten ts)"
        by blast
      have "fits c ob (Leaf nd)"
        using resolve_terminal_node[OF leaf(2)] d by (simp add: fits_def)
      with ts leaf(3) Cons have "list_all2 (fits c) (stack st) (Leaf nd # ts)"
        "prog = program st @ concat (map flatten (Leaf nd # ts))"
        by (simp_all add: fits_carry_forward)
      then show ?thesis by blast
    next
      case (branch g1 fs f g2)
      from "1.prems"(3) branch(1) d have d1: "fst ob + 1 \<le> max_depth c" by fastforce
      have "\<forall>ob \<in> set (stack st1). fst ob \<le> max_depth c"
        using branch(5) ds d1 by auto
      from "1.IH"[OF Cons step refl run this "1.prems"(3)] obtain ts where
        ts: "list_all2 (fits c) (stack st1) ts" "prog = program st1 @ concat (map flatten ts)"
        by blast
      from ts(1) branch(5) obtain us vs where
        split: "ts = us @ vs" and
        us: "list_all2 (fits c) (replicate (arity f) (fst ob + 1, snd ob + int (arity f))) us" and
        vs: "list_all2 (fits c) rest vs"
        by (auto simp: list_all2_append1)
      have "fits c (fst ob, snd ob) (Branch f us)" using us d by (rule fits_branch)
      with vs Cons have "list_all2 (fits c) (stack st) (Branch f us # vs)" by simp
      moreover have "prog = program st @ concat (map flatten (Branch f us # vs))"
        using ts(2) branch(5) split by simp
      ultimately show ?thesis by blast
    qed
  qed
qed

lemma tree_size_flatten: "tree_size t = length (flatten t)"
  by (induction t) (simp_all add: length_concat comp_def cong: map_cong)

section \<open>The random source along the construction\<close>

lemma advances_refl: "advances g g"
  by (simp add: advances_def)

lemma advances_trans: "advances g g1 \<Longrightarrow> advances g1 g2 \<Longrightarrow> advances g g2"
  by (simp add: advances_def)

lemma advances_eq: "advances g g' \<Longrightarrow> g' = g\<lparr>cursor := cursor g'\<rparr>"
  by (simp add: advances_def)

lemma draw_advances: "advances g (snd (draw g))" "cursor (snd (draw g)) = Suc (cursor g)"
  by (simp_all add: draw_def advances_def)


lemma agree_mono: "agree n g h \<Longrightarrow> m \<le> n \<Longrightarrow> agree m g h"
  by (simp add: agree_def)

lemma randint_advances: "randint a b g = Inr (x, g') \<Longrightarrow> advances g g' \<and> cursor g' = Suc (cursor g)"
  by (auto simp: randint_def draw_advances split: if_splits)

lemma choice_advances: "choice xs g = Inr (x, g') \<Longrightarrow> advances g g' \<and> cursor g' = Suc (cursor g)"
  by (auto simp: choice_def draw_advances split: if_splits)



lemma resolve_terminal_advances:
  "resolve_terminal ps g = Inr (nd, g') \<Longrightarrow>
     advances g g' \<and> cursor g' = cursor g + 1 + (if is_ephemeral_node nd then 1 else 0)"
  by (auto simp: resolve_terminal_def split: sum.splits terminal.splits
           dest!: choice_advances randint_advances intro: advances_trans)


lemma random_advances: "advances g (snd (random g))" "cursor (snd (random g)) = Suc (cursor g)"
  by (simp_all add: random_def draw_advances)

lemma terminal_condition_cases:
  assumes "terminal_condition c stk depth sz g = Inr (b, g')"
  obtains (fixed) "g' = g" "\<And>h. terminal_condition c stk depth sz h = Inr (b, h)"
  | (coin) "g' = snd (random g)" "b = float_less (fst (random g)) (terminalRatio (pset c))"
      "\<And>h. terminal_condition c stk depth sz h
             = Inr (float_less (fst (random h)) (terminalRatio (pset c)), snd (random h))"
proof -
  define vf where "vf = valid_functions c sz"
  define M where "M = (if stk = [] then Inr sz
      else (case budget (if vf = [] then 1 else max_list (map arity vf)) (max_depth c) (rev stk) of
              Inl er \<Rightarrow> Inl er | Inr b \<Rightarrow> Inr (sz + b)))"
  define A where "A \<longleftrightarrow> terminals (pset c) = []"
  define B where "B \<longleftrightarrow> vf = [] \<or> depth = max_depth c \<or> sz = max_size c
      \<or> (desired_trait c = ''depth'' \<and> depth = desired_value c)
      \<or> (desired_trait c = ''size'' \<and> desired_value c \<le> sz)"
  define C where "C = (\<lambda>mps. min_depth c \<le> depth \<and> min_size c \<le> sz
      \<and> (desired_trait c = ''depth'' \<or> (desired_trait c = ''size'' \<and> desired_value c \<le> mps)))"
  have eq: "terminal_condition c stk depth sz h =
      (case M of Inl er \<Rightarrow> Inl (er, h)
       | Inr mps \<Rightarrow> if A then Inr (False, h) else if B then Inr (True, h)
           else if C mps then Inr (float_less (fst (random h)) (terminalRatio (pset c)), snd (random h))
           else Inr (False, h))" for h
    unfolding terminal_condition_def Let_def M_def A_def B_def C_def vf_def by simp
  from assms obtain mps where M: "M = Inr mps"
    by (cases M) (simp_all add: eq)
  show ?thesis
  proof (cases "\<not> A \<and> \<not> B \<and> C mps")
    case True
    with assms M show ?thesis by (intro coin) (simp_all add: eq)
  next
    case False
    with assms M have "g' = g" by (auto simp: eq split: if_splits)
    moreover from False assms M have "terminal_condition c stk depth sz h = Inr (b, h)" for h
      by (auto simp: eq split: if_splits)
    ultimately show ?thesis by (rule fixed)
  qed
qed

lemma terminal_condition_advances:
  assumes "terminal_condition c stk depth sz g = Inr (b, g')"
  shows "advances g g' \<and> (cursor g' = cursor g \<or> cursor g' = Suc (cursor g))"
  using assms by (cases rule: terminal_condition_cases) (simp_all add: advances_refl random_advances)



lemma loop_body_return_cases:
  assumes "loop_body tc c prog depth sz rest g = Inr (Return r g')"
  shows "r = None \<and> tc c rest depth sz g = Inr (False, g') \<and> candidate_functions c rest depth sz = Inr []"
  using assms by (auto simp: loop_body_def split: sum.splits if_splits prod.splits)

lemma loop_body_advances:
  assumes "loop_body terminal_condition c prog depth sz rest g = Inr (Continue st')"
  shows "advances g (gen st')"
  using assms
proof (cases rule: loop_body_cases)
  case (leaf g1 nd g2)
  with terminal_condition_advances[OF leaf(1)] resolve_terminal_advances[OF leaf(2)]
  show ?thesis by (auto intro: advances_trans)
next
  case (branch g1 fs f g2)
  with terminal_condition_advances[OF branch(1)] choice_advances[OF branch(3)]
  show ?thesis by (auto intro: advances_trans)
qed

lemma generate_loop_advances:
  "tc = terminal_condition \<Longrightarrow> generate_loop tc c st = Inr (r, g') \<Longrightarrow> advances (gen st) g'"
proof (induction tc c st rule: generate_loop.induct)
  case (1 tc c st)
  show ?case
  proof (cases "stack st")
    case Nil
    with "1.prems" show ?thesis by (simp add: generate_loop_done advances_refl)
  next
    case (Cons ob rest)
    show ?thesis
    proof (cases "loop_body tc c (program st) (fst ob) (snd ob) rest (gen st)")
      case (Inl er)
      with "1.prems" Cons show ?thesis by (simp add: generate_loop_unfold)
    next
      case (Inr stp)
      show ?thesis
      proof (cases stp)
        case (Return r1 g1)
        with "1.prems" Cons Inr have "r1 = r" "g1 = g'" by (simp_all add: generate_loop_unfold)
        with loop_body_return_cases[of tc c "program st" "fst ob" "snd ob" rest "gen st" r g'] Inr Return
          "1.prems"(1) terminal_condition_advances
        show ?thesis by blast
      next
        case (Continue st1)
        with "1.prems" Cons Inr have run: "generate_loop tc c st1 = Inr (r, g')"
          by (simp add: generate_loop_unfold)
        from "1.IH"[OF Cons Inr Continue "1.prems"(1) run]
          loop_body_advances[of c "program st" "fst ob" "snd ob" rest "gen st" st1] Inr Continue "1.prems"(1)
        show ?thesis by (auto intro: advances_trans)
      qed
    qed
  qed
qed




lemma ephemeral_count_simps [simp]:
  "ephemeral_count [] = 0"
  "ephemeral_count (nd # prog) = (if is_ephemeral_node nd then 1 else 0) + ephemeral_count prog"
  by (simp_all add: ephemeral_count_def)


lemma iterate_enough:
  "potential c (stack st) < n \<Longrightarrow>
   iterate n tc c st = (case generate_loop tc c st of Inl er \<Rightarrow> Inl er | Inr (r, g) \<Rightarrow> Inr (Return r g))"
proof (induction n arbitrary: st)
  case 0
  then show ?case by simp
next
  case (Suc n)
  show ?case
  proof (cases "stack st")
    case Nil
    then show ?thesis by (simp add: generate_loop_done)
  next
    case (Cons ob rest)
    show ?thesis
    proof (cases "loop_body tc c (program st) (fst ob) (snd ob) rest (gen st)")
      case (Inl er)
      with Cons show ?thesis by (simp add: generate_loop_unfold)
    next
      case (Inr stp)
      show ?thesis
      proof (cases stp)
        case (Return r g)
        with Cons Inr show ?thesis by (simp add: generate_loop_unfold)
      next
        case (Continue st1)
        from loop_body_decreases[of tc c "program st" "fst ob" "snd ob" rest "gen st" st1] Inr Continue Cons
        have "potential c (stack st1) < potential c (stack st)" by simp
        with Suc.prems have "potential c (stack st1) < n" by simp
        from Suc.IH[OF this] Cons Inr Continue show ?thesis by (simp add: generate_loop_unfold)
      qed
    qed
  qed
qed

lemma iterate_generate_loop:
  "iterate n tc c st = Inr (Continue st') \<Longrightarrow> generate_loop tc c st = generate_loop tc c st'"
proof (induction n arbitrary: st)
  case 0
  then show ?case by simp
next
  case (Suc n)
  from Suc.prems obtain ob rest where stk: "stack st = ob # rest"
    by (cases "stack st") simp_all
  with Suc.prems obtain st1 where
    step: "loop_body tc c (program st) (fst ob) (snd ob) rest (gen st) = Inr (Continue st1)"
    and rest: "iterate n tc c st1 = Inr (Continue st')"
    by (auto split: sum.splits step.splits)
  from Suc.IH[OF rest] stk step show ?case by (simp add: generate_loop_unfold)
qed

lemma generate_loop_no_terminals:
  assumes pos: "\<forall>f \<in> set (primitives (pset c)). 1 \<le> arity f"
    and none: "terminals (pset c) = []"
  shows "tc = terminal_condition \<Longrightarrow> stack st \<noteq> [] \<Longrightarrow> generate_loop tc c st \<noteq> Inr (Some prog, g')"
  using pos none
proof (induction tc c st rule: generate_loop.induct)
  case (1 tc c st)
  from "1.prems"(2) obtain ob rest where stk: "stack st = ob # rest" by (cases "stack st") simp_all
  show ?case
  proof
    assume run: "generate_loop tc c st = Inr (Some prog, g')"
    with stk obtain st1 where
      step: "loop_body tc c (program st) (fst ob) (snd ob) rest (gen st) = Inr (Continue st1)"
      and run1: "generate_loop tc c st1 = Inr (Some prog, g')"
      by (auto simp: generate_loop_unfold split: sum.splits step.splits dest: loop_body_return)
    from step have "stack st1 \<noteq> []"
    proof (cases rule: loop_body_cases)
      case (leaf g1 nd g2)
      with "1.prems"(1,4) show ?thesis
        by (auto simp: terminal_condition_def Let_def split: sum.splits if_splits)
    next
      case (branch g1 fs f g2)
      from branch(4) "1.prems"(3) have "1 \<le> arity f" by (auto simp: valid_functions_def)
      with branch(5) show ?thesis by auto
    qed
    from "1.IH"[OF stk step refl "1.prems"(1) this "1.prems"(3,4)] run1 show False by simp
  qed
qed

lemma observe_Some:
  "observe r = Inr (Some prog, n) \<Longrightarrow> \<exists>g'. r = Inr (Some prog, g') \<and> cursor g' = n"
  by (auto simp: observe_def split: sum.splits prod.splits)

section \<open>The size arithmetic (C2)\<close>

text \<open>
  The node count of the complete tree in closed form: \<open>depth + 1\<close> for arity 1, the
  geometric sum \<open>(arity^(depth+1) - 1) / (arity - 1)\<close> otherwise.
\<close>

lemma complete_tree_size_chain: "complete_tree_size 1 d = int d + 1"
  by (induction d) simp_all

lemma complete_tree_size_geometric:
  assumes "2 \<le> m"
  shows "complete_tree_size m d = (int m ^ (d + 1) - 1) div (int m - 1)"
proof -
  have "int m - 1 \<noteq> 0" using assms by simp
  then show ?thesis using geometric_sum[of m d] by simp
qed

text \<open>
  Where the complete tree has fewer than \<open>2^53\<close> nodes, the float division is
  exact and \<open>get_max_size\<close> returns the node count; the three examples of the
  specification are of this kind.
\<close>

lemma get_max_size_small:
  "complete_tree_size m d < 2 ^ 53 \<Longrightarrow> get_max_size m (int d) = Inr (complete_tree_size m d)"
  by (rule get_max_size_exact)

lemma get_max_size_examples:
  "get_max_size 1 4 = Inr 5 \<and> get_max_size 2 3 = Inr 15 \<and> get_max_size 3 2 = Inr 13"
  by code_simp

text \<open>
  C2.  The specification: for all \<open>arity \<ge> 1\<close> and \<open>depth \<ge> 0\<close>, \<open>get_max_size\<close> returns exactly
  the node count of the complete tree, with no loss of exactness for inputs of every
  magnitude.  The code divides with \<^verbatim>\<open>/\<close>, a float division: the complete binary tree
  of depth 53 has \<open>2^54 - 1 = 18014398509481983\<close> nodes, a number that no double
  represents, and \<open>get_max_size(2, 53)\<close> returns \<open>18014398509481984\<close>.
\<close>

theorem get_max_size_rounds:
  "get_max_size 2 53 = Inr 18014398509481984 \<and> complete_tree_size 2 53 = 18014398509481983"
  by code_simp

section \<open>The size bins (C9)\<close>






section \<open>Bounds of the returned program (C1)\<close>

lemma terminal_condition_function_depth:
  "terminals (pset c) \<noteq> [] \<Longrightarrow> terminal_condition c rest depth sz g = Inr (False, g1)
   \<Longrightarrow> depth \<noteq> max_depth c"
  by (auto simp: terminal_condition_def Let_def split: sum.splits if_splits)

text \<open>
  C1, as the code has it.  For a primitive set with at least one terminal and functions
  of positive arity, and bounds \<open>0 \<le> min_depth \<le> max_depth\<close>, \<open>1 \<le> min_size \<le> max_size\<close>,
  every program that \<open>generate_grow\<close> returns is the prefix form of a complete tree
  with at most \<open>max_size\<close> nodes and depth at most \<open>max_depth\<close>.  The lower bounds are
  not guaranteed (see the counterexample).
\<close>

theorem generate_grow_upper_bounds:
  assumes terms: "terminals ps \<noteq> []"
    and pos: "\<forall>f \<in> set (primitives ps). 1 \<le> arity f"
    and bounds: "0 \<le> mind" "mind \<le> maxd" "1 \<le> mins" "mins \<le> maxs"
    and run: "generate_grow ps mind maxd mins maxs trait g = Inr (Some prog, g')"
  shows "\<exists>t. prog = flatten t \<and> well_formed t \<and> tree_size t = length prog
             \<and> int (tree_size t) \<le> maxs \<and> int (tree_depth t) \<le> maxd"
proof -
  from run obtain dv g1 where
    loop: "generate_loop terminal_condition
             \<lparr>pset = ps, min_depth = mind, max_depth = maxd, min_size = mins, max_size = maxs,
              desired_trait = trait, desired_value = dv\<rparr> (initial_state g1) = Inr (Some prog, g')"
    by (auto simp: generate_grow_def generate_program'_def split: sum.splits)
  let ?c = "\<lparr>pset = ps, min_depth = mind, max_depth = maxd, min_size = mins, max_size = maxs,
             desired_trait = trait, desired_value = dv\<rparr>"
  have tcP: "\<forall>rest depth sz g g1. terminal_condition ?c rest depth sz g = Inr (False, g1)
               \<longrightarrow> depth \<noteq> max_depth ?c"
    using terms terminal_condition_function_depth[of ?c] by auto
  have "\<forall>ob \<in> set (stack (initial_state g1)). fst ob \<le> max_depth ?c"
    using bounds by (simp add: initial_state_def)
  from generate_loop_forest[OF tcP loop this] obtain ts where
    ts: "list_all2 (fits ?c) [(0, 1)] ts" "prog = concat (map flatten ts)"
    by (auto simp: initial_state_def)
  from ts(1) obtain t where t: "ts = [t]" "fits ?c (0, 1) t"
    by (auto simp: list_all2_Cons1)
  have "int (length prog) \<le> max_size ?c"
    using pos bounds
    by (intro generate_loop_size[OF _ loop]) (simp_all add: size_tracked_initial size_bounded_initial)
  with t ts(2) show ?thesis
    by (intro exI[of _ t]) (simp add: fits_def tree_size_flatten)
qed

theorem generate_grow_upper_bounds_witness:
  "observe (generate_grow example_set 1 3 5 8 ''size'' cycle_rng)
     = Inr (Some [PrimitiveNode (Primitive ''add'' 2), PrimitiveNode (Primitive ''add'' 2),
                  TerminalNode ''v0'', EphemeralNode (3, - 2), PrimitiveNode (Primitive ''sin'' 1),
                  PrimitiveNode (Primitive ''sin'' 1), EphemeralNode (1, - 2)], 12)
   \<and> (\<exists>t. [PrimitiveNode (Primitive ''add'' 2), PrimitiveNode (Primitive ''add'' 2),
            TerminalNode ''v0'', EphemeralNode (3, - 2), PrimitiveNode (Primitive ''sin'' 1),
            PrimitiveNode (Primitive ''sin'' 1), EphemeralNode (1, - 2)] = flatten t
          \<and> well_formed t
          \<and> tree_size t = length [PrimitiveNode (Primitive ''add'' 2), PrimitiveNode (Primitive ''add'' 2),
            TerminalNode ''v0'', EphemeralNode (3, - 2), PrimitiveNode (Primitive ''sin'' 1),
            PrimitiveNode (Primitive ''sin'' 1), EphemeralNode (1, - 2)]
          \<and> int (tree_size t) \<le> 8 \<and> int (tree_depth t) \<le> 3)"
proof -
  let ?prog = "[PrimitiveNode (Primitive ''add'' 2), PrimitiveNode (Primitive ''add'' 2),
                TerminalNode ''v0'', EphemeralNode (3, - 2), PrimitiveNode (Primitive ''sin'' 1),
                PrimitiveNode (Primitive ''sin'' 1), EphemeralNode (1, - 2)]"
  have obs: "observe (generate_grow example_set 1 3 5 8 ''size'' cycle_rng) = Inr (Some ?prog, 12)"
    by code_simp
  then obtain g' where run: "generate_grow example_set 1 3 5 8 ''size'' cycle_rng = Inr (Some ?prog, g')"
    by (auto dest: observe_Some)
  have terms: "terminals example_set \<noteq> []" by (simp add: example_set_def)
  have pos: "\<forall>f \<in> set (primitives example_set). 1 \<le> arity f" by (simp add: example_set_def)
  have "\<exists>t. ?prog = flatten t \<and> well_formed t \<and> tree_size t = length ?prog
             \<and> int (tree_size t) \<le> 8 \<and> int (tree_depth t) \<le> 3"
    by (rule generate_grow_upper_bounds[OF terms pos _ _ _ _ run]) simp_all
  with obs show ?thesis by (rule conjI)
qed

text \<open>
  The specification also promises \<open>min_depth \<le> depth\<close> and \<open>min_size \<le> size\<close>.  With
  \<open>min_depth = 1\<close> and the size range \<open>[1, 1]\<close> (the first bin of the script for a bin width
  of 1) the builder returns a single terminal, of depth \<open>0\<close>; with the depth range
  \<open>[1, 1]\<close> and the size range \<open>[3, 3]\<close> it returns a program of two nodes.
\<close>

theorem generate_grow_lower_bounds_counterexample:
  "observe (generate_grow example_set 1 1 1 1 ''size'' zero_rng)
     = Inr (Some (flatten (Leaf (TerminalNode ''v0''))), 2)
   \<and> int (tree_depth (Leaf (TerminalNode ''v0''))) < 1
   \<and> observe (generate_grow example_set 1 1 3 3 ''depth'' zero_rng)
     = Inr (Some (flatten (Branch (Primitive ''sin'' 1) [Leaf (TerminalNode ''v0'')])), 3)
   \<and> int (tree_size (Branch (Primitive ''sin'' 1) [Leaf (TerminalNode ''v0'')])) < 3"
  by code_simp

section \<open>The running size (C3)\<close>

text \<open>
  C3.  Whenever the loop of \<open>generate_program_\<close> pops an obligation \<open>(depth, size)\<close>, that
  is, in every state with a non-empty stack that the loop reaches from the initial state,
  \<open>size\<close> is the number of nodes appended so far plus the number of pending obligations
  (the popped one included); and after a terminal the next obligation is pushed back
  with the size just used.  The terminal condition is arbitrary; function arities are
  positive, as DEAP's primitive sets guarantee.
\<close>

theorem popped_size_is_program_size:
  assumes pos: "\<forall>f \<in> set (primitives (pset c)). 1 \<le> arity f"
    and reach: "iterate n tc c (initial_state g) = Inr (Continue st)"
    and top: "stack st = ob # rest"
  shows "snd ob = int (length (program st)) + int (length (stack st))
       \<and> (\<forall>g1 nd g2 ob' rest'.
            tc c rest (fst ob) (snd ob) (gen st) = Inr (True, g1)
            \<and> resolve_terminal (pset c) g1 = Inr (nd, g2) \<and> rest = ob' # rest'
            \<longrightarrow> loop_body tc c (program st) (fst ob) (snd ob) rest (gen st)
                 = Inr (Continue \<lparr>program = program st @ [nd],
                                  stack = (fst ob', snd ob) # rest', gen = g2\<rparr>))"
proof -
  from iterate_size_tracked[OF pos size_tracked_initial reach] top
  have "snd ob = int (length (program st)) + int (length (stack st))"
    by (simp add: size_tracked_def)
  moreover have "\<forall>g1 nd g2 ob' rest'.
            tc c rest (fst ob) (snd ob) (gen st) = Inr (True, g1)
            \<and> resolve_terminal (pset c) g1 = Inr (nd, g2) \<and> rest = ob' # rest'
            \<longrightarrow> loop_body tc c (program st) (fst ob) (snd ob) rest (gen st)
                 = Inr (Continue \<lparr>program = program st @ [nd],
                                  stack = (fst ob', snd ob) # rest', gen = g2\<rparr>)"
    by (auto simp: loop_body_def carry_forward_def)
  ultimately show ?thesis by (rule conjI)
qed

text \<open>A run in which a function of arity 2 and one of arity 1 have been appended: the
  obligation on top carries the size 4, for two nodes appended and two obligations
  pending.\<close>

definition carry_config :: config where
  "carry_config =
     \<lparr>pset = example_set, min_depth = 1, max_depth = 2, min_size = 1, max_size = 4,
      desired_trait = ''depth'', desired_value = 2\<rparr>"

definition carry_rng :: rng where
  "carry_rng = \<lparr>source = (\<lambda>i. [1, 4503599627370496, 0, 0] ! (i mod 4)), cursor = 0\<rparr>"

theorem popped_size_is_program_size_witness:
  "\<exists>st. iterate 2 terminal_condition carry_config (initial_state carry_rng) = Inr (Continue st)
        \<and> program st = [PrimitiveNode (Primitive ''add'' 2), PrimitiveNode (Primitive ''sin'' 1)]
        \<and> stack st = [(2, 4), (1, 3)]
        \<and> (4::int) = int (length (program st)) + int (length (stack st))"
proof -
  have "case iterate 2 terminal_condition carry_config (initial_state carry_rng) of
          Inr (Continue st) \<Rightarrow>
            program st = [PrimitiveNode (Primitive ''add'' 2), PrimitiveNode (Primitive ''sin'' 1)]
            \<and> stack st = [(2, 4), (1, 3)]
        | _ \<Rightarrow> False"
    by code_simp
  then obtain st where
    reach: "iterate 2 terminal_condition carry_config (initial_state carry_rng) = Inr (Continue st)"
    and prog: "program st = [PrimitiveNode (Primitive ''add'' 2), PrimitiveNode (Primitive ''sin'' 1)]"
    and top: "stack st = (2, 4) # [(1, 3)]"
    by (auto split: sum.splits step.splits)
  have pos: "\<forall>f \<in> set (primitives (pset carry_config)). 1 \<le> arity f"
    by (simp add: carry_config_def example_set_def)
  from popped_size_is_program_size[OF pos reach top]
  have "(4::int) = int (length (program st)) + int (length (stack st))" by simp
  with reach prog top show ?thesis by blast
qed

section \<open>Infeasible construction (C4)\<close>

lemma randint_ok: "a \<le> b \<Longrightarrow> \<exists>x g'. randint a b g = Inr (x, g')"
  by (simp add: randint_def)

lemma terminal_condition_no_terminals:
  "terminals (pset c) = [] \<Longrightarrow> terminal_condition c [] depth sz g = Inr (False, g)"
  by (simp add: terminal_condition_def Let_def)

text \<open>
  C4.  Whenever the loop of a call of \<open>generate_grow\<close> reaches a step that needs a
  function (the terminal condition answers no) and the list of candidate functions is
  empty (no function keeps \<open>size + arity \<le> max_size\<close>, or under size targeting none
  leaves the desired size reachable), the call returns \<open>None\<close>: no exception and no
  partial program.  In particular, with no terminals and \<open>max_size < arity\<close> for every
  function the call always returns \<open>None\<close> (given \<open>min_depth \<le> max_depth\<close> and
  \<open>min_size \<le> max_size\<close>, so that \<open>desired_value\<close> can be drawn).
\<close>

theorem empty_feasible_set_is_infeasible:
  "(\<forall>dv g0 n st ob rest g1.
      (if trait = ''depth'' then randint mind maxd g else randint mins maxs g) = Inr (dv, g0)
      \<and> iterate n terminal_condition
            \<lparr>pset = ps, min_depth = mind, max_depth = maxd, min_size = mins, max_size = maxs,
             desired_trait = trait, desired_value = dv\<rparr> (initial_state g0) = Inr (Continue st)
      \<and> stack st = ob # rest
      \<and> terminal_condition
            \<lparr>pset = ps, min_depth = mind, max_depth = maxd, min_size = mins, max_size = maxs,
             desired_trait = trait, desired_value = dv\<rparr> rest (fst ob) (snd ob) (gen st) = Inr (False, g1)
      \<and> candidate_functions
            \<lparr>pset = ps, min_depth = mind, max_depth = maxd, min_size = mins, max_size = maxs,
             desired_trait = trait, desired_value = dv\<rparr> rest (fst ob) (snd ob) = Inr []
      \<longrightarrow> generate_grow ps mind maxd mins maxs trait g = Inr (None, g1))
   \<and> (terminals ps = [] \<and> (\<forall>f \<in> set (primitives ps). maxs < int (arity f))
        \<and> mind \<le> maxd \<and> mins \<le> maxs
      \<longrightarrow> (\<exists>g'. generate_grow ps mind maxd mins maxs trait g = Inr (None, g')))"
proof -
  let ?c = "\<lambda>dv. \<lparr>pset = ps, min_depth = mind, max_depth = maxd, min_size = mins, max_size = maxs,
             desired_trait = trait, desired_value = dv\<rparr>"
  let ?draw = "if trait = ''depth'' then randint mind maxd g else randint mins maxs g"
  have first: "generate_grow ps mind maxd mins maxs trait g = Inr (None, g1)"
    if d: "?draw = Inr (dv, g0)"
      and reach: "iterate n terminal_condition (?c dv) (initial_state g0) = Inr (Continue st)"
      and stk: "stack st = ob # rest"
      and tc: "terminal_condition (?c dv) rest (fst ob) (snd ob) (gen st) = Inr (False, g1)"
      and fs: "candidate_functions (?c dv) rest (fst ob) (snd ob) = Inr []"
    for dv g0 n st ob rest g1
  proof -
    from tc fs have "loop_body terminal_condition (?c dv) (program st) (fst ob) (snd ob) rest (gen st)
                     = Inr (Return None g1)"
      by (simp add: loop_body_def)
    with stk have "generate_loop terminal_condition (?c dv) st = Inr (None, g1)"
      by (simp add: generate_loop_unfold)
    with iterate_generate_loop[OF reach] d show ?thesis
      by (simp add: generate_grow_def generate_program'_def)
  qed
  have second: "\<exists>g'. generate_grow ps mind maxd mins maxs trait g = Inr (None, g')"
    if none: "terminals ps = []" and big: "\<forall>f \<in> set (primitives ps). maxs < int (arity f)"
      and b: "mind \<le> maxd" "mins \<le> maxs"
  proof -
    from b obtain dv g0 where d: "?draw = Inr (dv, g0)"
      using randint_ok[of mind maxd g] randint_ok[of mins maxs g] by (cases "trait = ''depth''") auto
    have tc: "terminal_condition (?c dv) [] 0 1 g0 = Inr (False, g0)"
      using none by (simp add: terminal_condition_no_terminals)
    have "valid_functions (?c dv) 1 = []"
      using big by (auto simp: valid_functions_def filter_empty_conv)
    then have fs: "candidate_functions (?c dv) [] 0 1 = Inr []"
      by (simp add: candidate_functions_def)
    have "iterate 0 terminal_condition (?c dv) (initial_state g0) = Inr (Continue (initial_state g0))"
      by simp
    from first[OF d this, of "(0, 1)" "[]" g0] tc fs show ?thesis
      by (simp add: initial_state_def)
  qed
  from first second show ?thesis by blast
qed

text \<open>A primitive set without terminals whose only function has arity 2.\<close>

definition arity_two_set :: primitive_set where
  "arity_two_set =
     \<lparr>terminals = [], primitives = [Primitive ''add'' 2], terminalRatio = (0, 0),
      ephemeral_constants = []\<rparr>"

theorem empty_feasible_set_is_infeasible_witness:
  "generate_grow unary_set 1 1 3 3 ''size'' zero_rng = Inr (None, zero_rng\<lparr>cursor := 1\<rparr>)
   \<and> (\<exists>g'. generate_grow arity_two_set 0 3 1 1 ''size'' zero_rng = Inr (None, g'))"
proof -
  let ?c = "\<lparr>pset = unary_set, min_depth = 1, max_depth = 1, min_size = 3, max_size = 3,
             desired_trait = ''size'', desired_value = 3\<rparr>"
  let ?g0 = "zero_rng\<lparr>cursor := 1\<rparr>"
  have d: "(if ''size'' = ''depth'' then randint 1 1 zero_rng else randint 3 3 zero_rng) = Inr (3, ?g0)"
    by (simp add: randint_def draw_def zero_rng_def)
  have reach: "iterate 0 terminal_condition ?c (initial_state ?g0) = Inr (Continue (initial_state ?g0))"
    by simp
  have stk: "stack (initial_state ?g0) = (0, 1) # []" by (simp add: initial_state_def)
  have vf: "valid_functions ?c 1 = [Primitive ''sin'' 1]"
    by (simp add: valid_functions_def unary_set_def)
  have terms: "terminals unary_set = [Terminal ''v0'']" by (simp add: unary_set_def)
  have tc: "terminal_condition ?c [] (fst (0, 1)) (snd (0, 1)) (gen (initial_state ?g0)) = Inr (False, ?g0)"
    by (simp add: terminal_condition_def Let_def vf initial_state_def terms)
  have "get_max_size 1 (1 - (0 + 1)) = Inr 1" by (simp add: get_max_size_def)
  then have fs: "candidate_functions ?c [] (fst (0, 1)) (snd (0, 1)) = Inr []"
    by (simp add: candidate_functions_def Let_def vf max_list_def)
  have a: "generate_grow unary_set 1 1 3 3 ''size'' zero_rng = Inr (None, ?g0)"
    using empty_feasible_set_is_infeasible[of "''size''" 1 1 zero_rng 3 3 unary_set] d reach stk tc fs
    by blast
  have "terminals arity_two_set = [] \<and> (\<forall>f \<in> set (primitives arity_two_set). 1 < int (arity f))
        \<and> (0::int) \<le> 3 \<and> (1::int) \<le> 1"
    by (simp add: arity_two_set_def)
  with empty_feasible_set_is_infeasible[of "''size''" 0 3 zero_rng 1 1 arity_two_set]
  have b: "\<exists>g'. generate_grow arity_two_set 0 3 1 1 ''size'' zero_rng = Inr (None, g')"
    by blast
  from a b show ?thesis by (rule conjI)
qed

section \<open>The check of the recomputed depth and size (C5)\<close>

text \<open>
  C5, as the code has it.  When the recomputed depth exceeds \<open>max_depth\<close> or the size
  exceeds \<open>max_size\<close>, the pass prints \<^verbatim>\<open>Uh-oh...\<close>, leaves the entry of the bin as it
  is (the tree stays in \<^verbatim>\<open>primitive_trees\<close>) and the script continues with the next
  pass; otherwise nothing is printed.  The lower bounds \<open>min_depth\<close> and \<open>min_size\<close> play
  no part in the pass.
\<close>

theorem bounds_check_prints_and_continues:
  "(prog \<noteq> [] \<and> (bin_max_depth cf < depth \<or> bin_max_size cf < int (length prog))
      \<longrightarrow> record_program cf prog s depth st
          = Inr (st\<lparr>primitive_trees := primitive_trees st @ [prog],
                    printed := printed st @ [''Uh-oh...'']\<rparr>))
   \<and> (\<not> (bin_max_depth cf < depth \<or> bin_max_size cf < int (length prog))
        \<and> record_program cf prog s depth st = Inr st'
      \<longrightarrow> printed st' = printed st)
   \<and> record_program (cf\<lparr>bin_min_depth := a, bin_min_size := b\<rparr>) prog s depth st
       = record_program cf prog s depth st"
proof -
  have tally_min: "tally (cf\<lparr>bin_min_depth := a, bin_min_size := b\<rparr>) ls counts = tally cf ls counts"
    for ls counts
    by (induction cf ls counts rule: tally.induct) (auto split: label.splits option.splits)
  have third: "record_program (cf\<lparr>bin_min_depth := a, bin_min_size := b\<rparr>) prog s depth st
       = record_program cf prog s depth st"
    by (simp add: record_program_def Let_def tally_min)
  have first: "record_program cf prog s depth st
          = Inr (st\<lparr>primitive_trees := primitive_trees st @ [prog],
                    printed := printed st @ [''Uh-oh...'']\<rparr>)"
    if "prog \<noteq> []" "bin_max_depth cf < depth \<or> bin_max_size cf < int (length prog)"
    using that by (auto simp: record_program_def Let_def)
  have second: "printed st' = printed st"
    if "\<not> (bin_max_depth cf < depth \<or> bin_max_size cf < int (length prog))"
      "record_program cf prog s depth st = Inr st'"
    using that by (auto simp: record_program_def Let_def split: if_splits sum.splits)
  from first second third show ?thesis by blast
qed

theorem bounds_check_prints_and_continues_witness:
  "record_program first_bin [PrimitiveNode (Primitive ''sin'' 1), TerminalNode ''v0''] ''sin(v0)'' 1 empty_bin
     = Inr (empty_bin\<lparr>primitive_trees := primitive_trees empty_bin
                         @ [[PrimitiveNode (Primitive ''sin'' 1), TerminalNode ''v0'']],
                      printed := printed empty_bin @ [''Uh-oh...'']\<rparr>)
   \<and> (\<exists>st'. record_program first_bin [TerminalNode ''v0''] ''v0'' 0 empty_bin = Inr st'
            \<and> printed st' = printed empty_bin)"
proof -
  have a: "[PrimitiveNode (Primitive ''sin'' 1), TerminalNode ''v0''] \<noteq> []
      \<and> (bin_max_depth first_bin < 1
          \<or> bin_max_size first_bin < int (length [PrimitiveNode (Primitive ''sin'' 1), TerminalNode ''v0'']))"
    by (simp add: first_bin_def)
  from bounds_check_prints_and_continues
         [of "[PrimitiveNode (Primitive ''sin'' 1), TerminalNode ''v0'']" first_bin 1 "''sin(v0)''" empty_bin] a
  have first: "record_program first_bin [PrimitiveNode (Primitive ''sin'' 1), TerminalNode ''v0''] ''sin(v0)'' 1 empty_bin
     = Inr (empty_bin\<lparr>primitive_trees := primitive_trees empty_bin
                         @ [[PrimitiveNode (Primitive ''sin'' 1), TerminalNode ''v0'']],
                      printed := printed empty_bin @ [''Uh-oh...'']\<rparr>)"
    by blast
  have "case record_program first_bin [TerminalNode ''v0''] ''v0'' 0 empty_bin of
          Inr st' \<Rightarrow> True | Inl er \<Rightarrow> False"
    by code_simp
  then obtain st' where run: "record_program first_bin [TerminalNode ''v0''] ''v0'' 0 empty_bin = Inr st'"
    by (auto split: sum.splits)
  have b: "\<not> (bin_max_depth first_bin < 0 \<or> bin_max_size first_bin < int (length [TerminalNode ''v0'']))"
    by (simp add: first_bin_def)
  from bounds_check_prints_and_continues[of "[TerminalNode ''v0'']" first_bin 0 "''v0''" empty_bin st'] b run
  have "printed st' = printed empty_bin" by blast
  with first run show ?thesis by blast
qed

text \<open>
  The specification asks for a fatal condition on any of the four bounds and forbids accepting or
  dropping a tree silently.  In the first bin (\<open>min_depth = 1\<close>) a single terminal, of
  depth \<open>0\<close>, is recorded and nothing is printed; a tree larger than \<open>max_size\<close> is
  reported by a printed line and left out of the bin, and the pass ends normally.
\<close>

theorem postcondition_violation_counterexample:
  "bin_min_depth first_bin = 1
   \<and> record_program first_bin [TerminalNode ''v0''] ''v0'' 0 empty_bin
     = Inr \<lparr>primitive_trees = [[TerminalNode ''v0'']], programs = [''v0''], depths = [0],
            sizes = [1], function_counts = [0, 0], variable_counts = [1],
            constant_counts = [0, 0], printed = []\<rparr>
   \<and> record_program first_bin [PrimitiveNode (Primitive ''sin'' 1), TerminalNode ''v0''] ''sin(v0)'' 1 empty_bin
     = Inr \<lparr>primitive_trees = [[PrimitiveNode (Primitive ''sin'' 1), TerminalNode ''v0'']],
            programs = [], depths = [], sizes = [], function_counts = [], variable_counts = [],
            constant_counts = [], printed = [''Uh-oh...'']\<rparr>"
  by code_simp

section \<open>Configuration errors (C6)\<close>

text \<open>
  C6, as the code has it.  The builder has no configuration check of its own.  When
  \<open>min_size > max_size\<close> and the desired trait is not \<open>depth\<close>, the draw of
  \<open>desired_value\<close> raises ValueError (an empty range) before any draw is consumed.  A
  primitive set without terminals is not rejected: \<open>desired_value\<close> is drawn and the
  construction proceeds with functions only; if the call returns at all it returns
  \<open>None\<close>, the result of an infeasible construction.
\<close>

theorem configuration_is_not_checked:
  "(trait \<noteq> ''depth'' \<and> maxs < mins
      \<longrightarrow> generate_grow ps mind maxd mins maxs trait g = Inl (ValueError, g))
   \<and> (terminals ps = [] \<and> (\<forall>f \<in> set (primitives ps). 1 \<le> arity f)
        \<and> generate_grow ps mind maxd mins maxs trait g = Inr (r, g')
      \<longrightarrow> r = None \<and> cursor g < cursor g')"
proof -
  have first: "generate_grow ps mind maxd mins maxs trait g = Inl (ValueError, g)"
    if "trait \<noteq> ''depth''" "maxs < mins"
    using that by (simp add: generate_grow_def generate_program'_def randint_def)
  have second: "r = None \<and> cursor g < cursor g'"
    if none: "terminals ps = []" and pos: "\<forall>f \<in> set (primitives ps). 1 \<le> arity f"
      and run: "generate_grow ps mind maxd mins maxs trait g = Inr (r, g')"
  proof -
    let ?c = "\<lambda>dv. \<lparr>pset = ps, min_depth = mind, max_depth = maxd, min_size = mins, max_size = maxs,
               desired_trait = trait, desired_value = dv\<rparr>"
    from run obtain dv g1 where
      d: "(if trait = ''depth'' then randint mind maxd g else randint mins maxs g) = Inr (dv, g1)" and
      loop: "generate_loop terminal_condition (?c dv) (initial_state g1) = Inr (r, g')"
      by (auto simp: generate_grow_def generate_program'_def split: sum.splits)
    from d have "cursor g1 = Suc (cursor g)" by (auto dest: randint_advances split: if_splits)
    moreover from generate_loop_advances[OF refl loop] have "cursor g1 \<le> cursor g'"
      by (simp add: advances_def initial_state_def)
    ultimately have lt: "cursor g < cursor g'" by simp
    have "generate_loop terminal_condition (?c dv) (initial_state g1) \<noteq> Inr (Some prog, g')" for prog
      using pos none by (intro generate_loop_no_terminals) (simp_all add: initial_state_def)
    with loop have "r = None" by (cases r) auto
    with lt show ?thesis by simp
  qed
  from first second show ?thesis by blast
qed

theorem configuration_is_not_checked_witness:
  "generate_grow example_set 0 3 5 1 ''size'' zero_rng = Inl (ValueError, zero_rng)
   \<and> observe (generate_grow no_terminal_set 0 1 1 2 ''depth'' zero_rng) = Inr (None, 2)
   \<and> cursor zero_rng < 2"
proof -
  have a: "generate_grow example_set 0 3 5 1 ''size'' zero_rng = Inl (ValueError, zero_rng)"
    using configuration_is_not_checked[of "''size''" 1 5 example_set 0 3 zero_rng] by simp
  have obs: "observe (generate_grow no_terminal_set 0 1 1 2 ''depth'' zero_rng) = Inr (None, 2)"
    by code_simp
  then obtain g' where run: "generate_grow no_terminal_set 0 1 1 2 ''depth'' zero_rng = Inr (None, g')"
    and cur: "cursor g' = 2"
    by (auto simp: observe_def split: sum.splits prod.splits)
  have "terminals no_terminal_set = [] \<and> (\<forall>f \<in> set (primitives no_terminal_set). 1 \<le> arity f)"
    by (simp add: no_terminal_set_def)
  with configuration_is_not_checked[of "''depth''" 2 1 no_terminal_set 0 1 zero_rng None g'] run cur
  have "cursor zero_rng < 2" by simp
  with a obs show ?thesis by simp
qed

text \<open>
  The specification says that both configuration errors are rejected at entry, before any draw,
  distinguishably from infeasibility.  Without terminals the call consumes two draws and
  returns \<open>None\<close>, as it does for an infeasible construction (second line); with
  \<open>min_size = 5 > max_size = 1\<close> and the desired trait \<open>depth\<close> it returns a program.
\<close>

theorem configuration_errors_counterexample:
  "observe (generate_grow no_terminal_set 0 1 1 2 ''depth'' zero_rng) = Inr (None, 2)
   \<and> observe (generate_grow unary_set 1 1 3 3 ''size'' zero_rng) = Inr (None, 1)
   \<and> observe (generate_grow example_set 0 0 5 1 ''depth'' zero_rng) = Inr (Some [TerminalNode ''v0''], 2)"
  by code_simp

section \<open>Deduplication within a bin (C7)\<close>






section \<open>Determinism (C8)\<close>

lemma initial_state_gen: "(initial_state g)\<lparr>gen := h\<rparr> = initial_state h"
  by (simp add: initial_state_def)





section \<open>Termination of the construction loop (C10)\<close>

text \<open>
  C10, as the code has it.  For every primitive set, all bounds and every terminal
  condition, the \<^verbatim>\<open>while\<close> loop started in a state \<open>st\<close> ends within
  \<open>potential c (stack st) + 1\<close> iterations: cut after that many, it has produced what
  \<open>generate_loop\<close> produces, which is a program, \<open>None\<close> or an exception.  Each
  iteration that continues lowers the variant; when it appended a function \<open>f\<close>, then
  \<open>size + arity f \<le> max_size\<close> held and \<open>arity f\<close> obligations with the size field
  \<open>size + arity f\<close>, larger than \<open>size\<close>, were pushed.  Nothing here needs a terminal in the primitive set.
\<close>

theorem loop_terminates:
  "iterate (Suc (potential c (stack st))) tc c st
     = (case generate_loop tc c st of Inl er \<Rightarrow> Inl er | Inr (r, g) \<Rightarrow> Inr (Return r g))
   \<and> (\<forall>ob rest st'.
        stack st = ob # rest
        \<and> loop_body tc c (program st) (fst ob) (snd ob) rest (gen st) = Inr (Continue st')
        \<longrightarrow> potential c (stack st') < potential c (stack st)
            \<and> (\<forall>f. program st' = program st @ [PrimitiveNode f]
                 \<longrightarrow> snd ob + int (arity f) \<le> max_size c
                     \<and> stack st' = replicate (arity f) (fst ob + 1, snd ob + int (arity f)) @ rest
                     \<and> (\<forall>ob' \<in> set (take (arity f) (stack st')). snd ob < snd ob')))"
proof -
  have fuel: "iterate (Suc (potential c (stack st))) tc c st
     = (case generate_loop tc c st of Inl er \<Rightarrow> Inl er | Inr (r, g) \<Rightarrow> Inr (Return r g))"
    by (rule iterate_enough) simp
  have step: "potential c (stack st') < potential c (stack st)
            \<and> (\<forall>f. program st' = program st @ [PrimitiveNode f]
                 \<longrightarrow> snd ob + int (arity f) \<le> max_size c
                     \<and> stack st' = replicate (arity f) (fst ob + 1, snd ob + int (arity f)) @ rest
                     \<and> (\<forall>ob' \<in> set (take (arity f) (stack st')). snd ob < snd ob'))"
    if stk: "stack st = ob # rest"
      and body: "loop_body tc c (program st) (fst ob) (snd ob) rest (gen st) = Inr (Continue st')"
    for ob rest st'
  proof -
    from loop_body_decreases[OF body] stk
    have dec: "potential c (stack st') < potential c (stack st)" by simp
    from body have "\<forall>f. program st' = program st @ [PrimitiveNode f]
                 \<longrightarrow> snd ob + int (arity f) \<le> max_size c
                     \<and> stack st' = replicate (arity f) (fst ob + 1, snd ob + int (arity f)) @ rest
                     \<and> (\<forall>ob' \<in> set (take (arity f) (stack st')). snd ob < snd ob')"
    proof (cases rule: loop_body_cases)
      case (leaf g1 nd g2)
      with resolve_terminal_node[OF leaf(2)] show ?thesis by auto
    next
      case (branch g1 fs f g2)
      then show ?thesis by (auto simp: valid_functions_def)
    qed
    with dec show ?thesis by simp
  qed
  from fuel step show ?thesis by blast
qed

text \<open>A run with the depth range \<open>[1, 1]\<close> and the size range \<open>[3, 3]\<close>.\<close>

definition depth_config :: config where
  "depth_config =
     \<lparr>pset = example_set, min_depth = 1, max_depth = 1, min_size = 3, max_size = 3,
      desired_trait = ''depth'', desired_value = 1\<rparr>"

theorem loop_terminates_witness:
  "(\<exists>g. iterate (Suc (potential depth_config (stack (initial_state zero_rng)))) terminal_condition
           depth_config (initial_state zero_rng)
         = Inr (Return (Some [PrimitiveNode (Primitive ''sin'' 1), TerminalNode ''v0'']) g))
   \<and> (\<exists>st'. loop_body terminal_condition depth_config [] 0 1 [] zero_rng = Inr (Continue st')
            \<and> stack st' = [(1, 2)]
            \<and> potential depth_config (stack st') < potential depth_config [(0, 1)])"
proof -
  have "observe (generate_loop terminal_condition depth_config (initial_state zero_rng))
          = Inr (Some [PrimitiveNode (Primitive ''sin'' 1), TerminalNode ''v0''], 2)"
    by code_simp
  then obtain g where
    run: "generate_loop terminal_condition depth_config (initial_state zero_rng)
            = Inr (Some [PrimitiveNode (Primitive ''sin'' 1), TerminalNode ''v0''], g)"
    by (auto dest: observe_Some)
  have "case loop_body terminal_condition depth_config [] 0 1 [] zero_rng of
          Inr (Continue st') \<Rightarrow> program st' = [] @ [PrimitiveNode (Primitive ''sin'' 1)] \<and> stack st' = [(1, 2)]
        | _ \<Rightarrow> False"
    by code_simp
  then obtain st' where
    body: "loop_body terminal_condition depth_config [] 0 1 [] zero_rng = Inr (Continue st')"
    and st': "stack st' = [(1, 2)]"
    by (auto split: sum.splits step.splits)
  have init: "stack (initial_state zero_rng) = (0, 1) # []" "program (initial_state zero_rng) = []"
    "gen (initial_state zero_rng) = zero_rng"
    by (simp_all add: initial_state_def)
  from loop_terminates[of depth_config "initial_state zero_rng" terminal_condition] run
  have fuel: "iterate (Suc (potential depth_config (stack (initial_state zero_rng)))) terminal_condition
           depth_config (initial_state zero_rng)
         = Inr (Return (Some [PrimitiveNode (Primitive ''sin'' 1), TerminalNode ''v0'']) g)"
    by simp
  from loop_terminates[of depth_config "initial_state zero_rng" terminal_condition] body init
  have "potential depth_config (stack st') < potential depth_config [(0, 1)]"
    by simp
  with fuel body st' show ?thesis by blast
qed

text \<open>
  The property as first stated says that the call always returns a program list or \<open>None\<close>.  It can also end
  with an exception: when the only terminal is the ephemeral constant and its pool is
  empty, instantiating it calls \<^verbatim>\<open>random.randint(0, -1)\<close>, which raises ValueError.
\<close>

theorem generate_grow_raises_counterexample:
  "observe (generate_grow empty_pool_set 0 1 1 1 ''size'' zero_rng) = Inl (ValueError, 2)"
  by code_simp

end
